theory Spec2Isabelle
  imports Complex_Main
begin

text \<open>
  A model of the concurrent store of lab 3 (\<open>EStore.cpp\<close>), of its task queue
  (\<open>TaskQueue.cpp\<close>) and of the worker loops of the simulation (\<open>estoresim.cpp\<close>), with
  the properties of their specification that the code satisfies and the inputs on which it
  departs from them. Each operation is modelled as the function from the state found to the
  state left by one call, together with the synchronisation calls made on the way.
\<close>

section \<open>Synchronisation events and abnormal endings\<close>

text \<open>
  The sthread primitives are external to the store. Every call of one of them is recorded as
  an event, in program order, so that each operation of the model returns the new state
  together with the sequence of synchronisation calls it made. The mutex of a
  \<open>TaskQueue\<close> object is a different object from the mutex \<open>mtx\<close> of the store and is
  called \<open>queue_mtx\<close> here.
\<close>

datatype mutex = mtx | global_mtx | item_mtx int | queue_mtx

datatype cond = item_cv int | item_cv_fine int | not_empty

datatype event =
    smutex_lock mutex
  | smutex_unlock mutex
  | scond_wait cond mutex
  | scond_signal cond mutex
  | scond_broadcast cond mutex

text \<open>
  Ways in which a call does not return normally: a failed \<open>assert\<close>, a wait that is never
  woken again, an addition on \<open>int\<close> that leaves the range of the type (undefined in C++),
  and a call through a null function pointer.
\<close>

datatype halt = AssertFailed | BlockedForever | SignedOverflow | NullCall

type_synonym 'a outcome = "halt + ('a \<times> event list)"

definition emit :: "event list \<Rightarrow> 'a outcome \<Rightarrow> 'a outcome" where
  "emit es r = (case r of Inl h \<Rightarrow> Inl h | Inr (x, tr) \<Rightarrow> Inr (x, es @ tr))"

definition result_of :: "'a outcome \<Rightarrow> 'a option" where
  "result_of r = (case r of Inl h \<Rightarrow> None | Inr (x, tr) \<Rightarrow> Some x)"

definition trace_of :: "'a outcome \<Rightarrow> event list" where
  "trace_of r = (case r of Inl h \<Rightarrow> [] | Inr (x, tr) \<Rightarrow> tr)"

section \<open>The store (EStore.cpp)\<close>

text \<open>
  The C++ \<open>double\<close> fields are kept abstract: the type \<open>'d\<close> only has to provide the
  operations and comparisons the code uses, with no law assumed about them, so every theorem
  proved for all \<open>'d\<close> holds whatever the arithmetic does (rounding included). Concrete
  evaluations use \<open>real\<close> on numbers a \<open>double\<close> represents exactly.
  The \<open>int\<close> field is the mathematical value of the C++ \<open>int\<close>.
\<close>

record 'd Item =
  valid :: bool
  quantity :: int
  price :: 'd
  discount :: 'd

text \<open>
  \<open>inventory\<close> is the array \<open>Item inventory[INVENTORY_SIZE]\<close>. The constant comes from
  a header that is not part of the sources at hand; the model takes it to be the length of the
  array, so it is a parameter of every state.
\<close>

record 'd EStore =
  fineMode :: bool
  inventory :: "'d Item list"
  shippingCost :: 'd
  storeDiscount :: 'd

definition INVENTORY_SIZE :: "'d EStore \<Rightarrow> int" where
  "INVENTORY_SIZE s = int (length (inventory s))"

text \<open>The greatest value of the C++ type \<open>int\<close>, taken to be 32 bits wide.\<close>

definition INT_MAX :: int where
  "INT_MAX = 2147483647"

definition slot :: "'d EStore \<Rightarrow> int \<Rightarrow> 'd Item" where
  \<comment> \<open>\<open>inventory[item_id]\<close>\<close>
  "slot s item_id = inventory s ! nat item_id"

definition put_slot :: "'d EStore \<Rightarrow> int \<Rightarrow> 'd Item \<Rightarrow> 'd EStore" where
  \<comment> \<open>assignment to the fields of \<open>inventory[item_id]\<close>\<close>
  "put_slot s item_id it = s\<lparr>inventory := (inventory s)[nat item_id := it]\<rparr>"

text \<open>
  Modelled from the spec: \<open>totalCost_nolock\<close> is declared in the header \<open>EStore.h\<close>, which
  is not among the sources. The spec gives the per-item effective cost as
  \<open>item.price * (1 - item.discount) * (1 - storeDiscount) + shippingCost\<close>, computed from
  the current state.
\<close>

definition totalCost_nolock ::
  "('d::{one,minus,times,plus}) EStore \<Rightarrow> 'd Item \<Rightarrow> 'd" where
  "totalCost_nolock s it =
     price it * (1 - discount it) * (1 - storeDiscount s) + shippingCost s"

subsection \<open>buyItem\<close>

text \<open>
  \<open>scond_wait\<close> releases \<open>mtx\<close> and sleeps; when it returns, other threads may have changed
  the store. The list \<open>env\<close> gives the store as found after each successive wake-up; when it
  is used up the thread is never woken again.
\<close>

fun buyItem_loop ::
  "('d::{one,minus,times,plus,ord}) EStore \<Rightarrow> int \<Rightarrow> 'd \<Rightarrow> 'd EStore list
     \<Rightarrow> 'd EStore outcome" where
  "buyItem_loop s item_id budget env =
     (if valid (slot s item_id) then
        (let it = slot s item_id;
             total = totalCost_nolock s it
         in if quantity it > 0 \<and> total \<le> budget
            then Inr (put_slot s item_id (it\<lparr>quantity := quantity it - 1\<rparr>),
                      [smutex_unlock mtx])
            else (case env of
                    [] \<Rightarrow> Inl BlockedForever
                  | s' # env' \<Rightarrow>
                      emit [scond_wait (item_cv item_id) mtx]
                        (buyItem_loop s' item_id budget env')))
      else Inr (s, [smutex_unlock mtx]))"

declare buyItem_loop.simps [simp del]

definition buyItem ::
  "('d::{one,minus,times,plus,ord}) EStore \<Rightarrow> int \<Rightarrow> 'd \<Rightarrow> 'd EStore list
     \<Rightarrow> 'd EStore outcome" where
  "buyItem s item_id budget env =
     (if fineMode s then Inl AssertFailed
      else if item_id < 0 \<or> item_id \<ge> INVENTORY_SIZE s then Inr (s, [])
      else if \<not> valid (slot s item_id) then Inr (s, [smutex_lock mtx, smutex_unlock mtx])
      else emit [smutex_lock mtx] (buyItem_loop s item_id budget env))"

subsection \<open>buyManyItems\<close>

text \<open>The checking loop, from the current running total.\<close>

fun order_ok ::
  "('d::{zero,one,minus,times,plus,ord}) EStore \<Rightarrow> 'd \<Rightarrow> 'd \<Rightarrow> 'd \<Rightarrow> 'd \<Rightarrow> int list \<Rightarrow> bool" where
  "order_ok s shipSnap discSnap budget tot [] = True"
| "order_ok s shipSnap discSnap budget tot (i # ids) =
     (let it = slot s i in
      if \<not> valid it \<or> quantity it \<le> 0 then False
      else let itemPrice = price it * (1 - discount it);
               perItemCost = itemPrice * (1 - discSnap) + shipSnap
           in if perItemCost < 0 then False
              else let tot' = tot + perItemCost
                   in if tot' > budget then False
                      else order_ok s shipSnap discSnap budget tot' ids)"

text \<open>The committing loop.\<close>

fun commit :: "'d EStore \<Rightarrow> int list \<Rightarrow> 'd EStore" where
  "commit s [] = s"
| "commit s (i # ids) =
     commit (put_slot s i ((slot s i)\<lparr>quantity := quantity (slot s i) - 1\<rparr>)) ids"

text \<open>
  The argument is a pointer to a vector: \<open>None\<close> is the null pointer. \<open>std::sort\<close> followed by
  \<open>std::unique\<close> and \<open>erase\<close> is \<open>remdups_adj (sort ids)\<close>. The slots read and written are
  those whose mutexes the call holds, so no other thread changes them between the check and
  the commit; the snapshot of the two store-wide amounts is taken from the state the call
  starts in.
\<close>

definition buyManyItems ::
  "('d::{zero,one,minus,times,plus,ord}) EStore \<Rightarrow> int list option \<Rightarrow> 'd
     \<Rightarrow> 'd EStore outcome" where
  "buyManyItems s item_ids budget =
     (if \<not> fineMode s then Inl AssertFailed
      else case item_ids of
        None \<Rightarrow> Inr (s, [])
      | Some requested \<Rightarrow>
          if requested = [] then Inr (s, [])
          else
            let ids0 = filter (\<lambda>id. 0 \<le> id \<and> id < INVENTORY_SIZE s) requested
            in if ids0 = [] then Inr (s, [])
               else
                 let ids = remdups_adj (sort ids0);
                     shipSnap = shippingCost s;
                     discSnap = storeDiscount s;
                     ok = order_ok s shipSnap discSnap budget 0 ids
                 in Inr (if ok then commit s ids else s,
                         [smutex_lock global_mtx, smutex_unlock global_mtx]
                         @ map (\<lambda>id. smutex_lock (item_mtx id)) ids
                         @ map (\<lambda>id. smutex_unlock (item_mtx id)) (rev ids)))"

subsection \<open>Administrative operations\<close>

definition addItem ::
  "'d EStore \<Rightarrow> int \<Rightarrow> int \<Rightarrow> 'd \<Rightarrow> 'd \<Rightarrow> 'd EStore \<times> event list" where
  "addItem s item_id qty pr disc =
     (if item_id < 0 \<or> item_id \<ge> INVENTORY_SIZE s then (s, [])
      else if \<not> fineMode s then
        (if \<not> valid (slot s item_id)
         then (put_slot s item_id
                 ((slot s item_id)\<lparr>valid := True, quantity := qty, price := pr,
                                    discount := disc\<rparr>),
               [smutex_lock mtx, scond_broadcast (item_cv item_id) mtx, smutex_unlock mtx])
         else (s, [smutex_lock mtx, smutex_unlock mtx]))
      else
        (if \<not> valid (slot s item_id)
         then (put_slot s item_id
                 ((slot s item_id)\<lparr>valid := True, quantity := qty, price := pr,
                                    discount := disc\<rparr>),
               [smutex_lock (item_mtx item_id),
                scond_broadcast (item_cv_fine item_id) (item_mtx item_id),
                smutex_unlock (item_mtx item_id)])
         else (s, [smutex_lock (item_mtx item_id), smutex_unlock (item_mtx item_id)])))"

definition removeItem :: "'d EStore \<Rightarrow> int \<Rightarrow> 'd EStore \<times> event list" where
  "removeItem s item_id =
     (if item_id < 0 \<or> item_id \<ge> INVENTORY_SIZE s then (s, [])
      else if \<not> fineMode s then
        (if valid (slot s item_id)
         then (put_slot s item_id ((slot s item_id)\<lparr>valid := False\<rparr>),
               [smutex_lock mtx, scond_broadcast (item_cv item_id) mtx, smutex_unlock mtx])
         else (s, [smutex_lock mtx, smutex_unlock mtx]))
      else
        (if valid (slot s item_id)
         then (put_slot s item_id ((slot s item_id)\<lparr>valid := False\<rparr>),
               [smutex_lock (item_mtx item_id),
                scond_broadcast (item_cv_fine item_id) (item_mtx item_id),
                smutex_unlock (item_mtx item_id)])
         else (s, [smutex_lock (item_mtx item_id), smutex_unlock (item_mtx item_id)])))"

text \<open>
  \<open>it.quantity += count\<close> is an addition on \<open>int\<close>; where the sum exceeds \<open>INT_MAX\<close> the
  behaviour of the C++ program is undefined, and the model ends in \<open>SignedOverflow\<close>. (With
  \<open>count > 0\<close> the sum cannot fall below the least \<open>int\<close>.)
\<close>

definition addStock :: "'d EStore \<Rightarrow> int \<Rightarrow> int \<Rightarrow> 'd EStore outcome" where
  "addStock s item_id count =
     (if item_id < 0 \<or> item_id \<ge> INVENTORY_SIZE s then Inr (s, [])
      else if \<not> fineMode s then
        (if valid (slot s item_id) \<and> count > 0
         then if quantity (slot s item_id) + count > INT_MAX then Inl SignedOverflow
              else Inr (put_slot s item_id
                          ((slot s item_id)\<lparr>quantity := quantity (slot s item_id) + count\<rparr>),
                        [smutex_lock mtx, scond_broadcast (item_cv item_id) mtx,
                         smutex_unlock mtx])
         else Inr (s, [smutex_lock mtx, smutex_unlock mtx]))
      else
        (if valid (slot s item_id) \<and> count > 0
         then if quantity (slot s item_id) + count > INT_MAX then Inl SignedOverflow
              else Inr (put_slot s item_id
                          ((slot s item_id)\<lparr>quantity := quantity (slot s item_id) + count\<rparr>),
                        [smutex_lock (item_mtx item_id),
                         scond_broadcast (item_cv_fine item_id) (item_mtx item_id),
                         smutex_unlock (item_mtx item_id)])
         else Inr (s, [smutex_lock (item_mtx item_id), smutex_unlock (item_mtx item_id)])))"

definition priceItem :: "('d::ord) EStore \<Rightarrow> int \<Rightarrow> 'd \<Rightarrow> 'd EStore \<times> event list" where
  "priceItem s item_id pr =
     (if item_id < 0 \<or> item_id \<ge> INVENTORY_SIZE s then (s, [])
      else if \<not> fineMode s then
        (if valid (slot s item_id)
         then (let decreased = (pr < price (slot s item_id))
               in (put_slot s item_id ((slot s item_id)\<lparr>price := pr\<rparr>),
                   [smutex_lock mtx]
                   @ (if decreased then [scond_broadcast (item_cv item_id) mtx] else [])
                   @ [smutex_unlock mtx]))
         else (s, [smutex_lock mtx, smutex_unlock mtx]))
      else
        (if valid (slot s item_id)
         then (let decreased = (pr < price (slot s item_id))
               in (put_slot s item_id ((slot s item_id)\<lparr>price := pr\<rparr>),
                   [smutex_lock (item_mtx item_id)]
                   @ (if decreased
                      then [scond_broadcast (item_cv_fine item_id) (item_mtx item_id)]
                      else [])
                   @ [smutex_unlock (item_mtx item_id)]))
         else (s, [smutex_lock (item_mtx item_id), smutex_unlock (item_mtx item_id)])))"

definition discountItem :: "('d::ord) EStore \<Rightarrow> int \<Rightarrow> 'd \<Rightarrow> 'd EStore \<times> event list" where
  "discountItem s item_id disc =
     (if item_id < 0 \<or> item_id \<ge> INVENTORY_SIZE s then (s, [])
      else if \<not> fineMode s then
        (if valid (slot s item_id)
         then (let increased = (disc > discount (slot s item_id))
               in (put_slot s item_id ((slot s item_id)\<lparr>discount := disc\<rparr>),
                   [smutex_lock mtx]
                   @ (if increased then [scond_broadcast (item_cv item_id) mtx] else [])
                   @ [smutex_unlock mtx]))
         else (s, [smutex_lock mtx, smutex_unlock mtx]))
      else
        (if valid (slot s item_id)
         then (let increased = (disc > discount (slot s item_id))
               in (put_slot s item_id ((slot s item_id)\<lparr>discount := disc\<rparr>),
                   [smutex_lock (item_mtx item_id)]
                   @ (if increased
                      then [scond_broadcast (item_cv_fine item_id) (item_mtx item_id)]
                      else [])
                   @ [smutex_unlock (item_mtx item_id)]))
         else (s, [smutex_lock (item_mtx item_id), smutex_unlock (item_mtx item_id)])))"

subsection \<open>Store-wide setters\<close>

definition wake_all_coarse :: "'d EStore \<Rightarrow> event list" where
  \<comment> \<open>\<open>for (i = 0; i < INVENTORY_SIZE; ++i) scond_broadcast(&item_cv[i], &mtx)\<close>\<close>
  "wake_all_coarse s =
     map (\<lambda>i. scond_broadcast (item_cv (int i)) mtx) [0 ..< length (inventory s)]"

definition wake_all_fine :: "'d EStore \<Rightarrow> event list" where
  \<comment> \<open>the loop that locks, broadcasts on and unlocks every item in turn\<close>
  "wake_all_fine s =
     concat (map (\<lambda>i. [smutex_lock (item_mtx (int i)),
                       scond_broadcast (item_cv_fine (int i)) (item_mtx (int i)),
                       smutex_unlock (item_mtx (int i))])
                 [0 ..< length (inventory s)])"

text \<open>Both setters end with \<open>smutex_unlock(&mtx)\<close> after the two branches have joined.\<close>

definition setShippingCost :: "('d::ord) EStore \<Rightarrow> 'd \<Rightarrow> 'd EStore \<times> event list" where
  "setShippingCost s cost =
     (let decreased = (cost < shippingCost s) in
      if \<not> fineMode s then
        (s\<lparr>shippingCost := cost\<rparr>,
         [smutex_lock mtx]
         @ (if decreased then wake_all_coarse s else [])
         @ [smutex_unlock mtx]
         @ [smutex_unlock mtx])
      else
        (s\<lparr>shippingCost := cost\<rparr>,
         [smutex_lock global_mtx, smutex_unlock global_mtx]
         @ (if decreased then wake_all_fine s else [])
         @ [smutex_unlock mtx]))"

definition setStoreDiscount :: "('d::ord) EStore \<Rightarrow> 'd \<Rightarrow> 'd EStore \<times> event list" where
  "setStoreDiscount s disc =
     (let increased = (disc > storeDiscount s) in
      if \<not> fineMode s then
        (s\<lparr>storeDiscount := disc\<rparr>,
         [smutex_lock mtx]
         @ (if increased then wake_all_coarse s else [])
         @ [smutex_unlock mtx]
         @ [smutex_unlock mtx])
      else
        (s\<lparr>storeDiscount := disc\<rparr>,
         [smutex_lock global_mtx, smutex_unlock global_mtx]
         @ (if increased then wake_all_fine s else [])
         @ [smutex_unlock mtx]))"

subsection \<open>getItemQuantity\<close>

definition getItemQuantity :: "'d EStore \<Rightarrow> int \<Rightarrow> int \<times> event list" where
  "getItemQuantity s item_id =
     (if item_id < 0 \<or> item_id \<ge> INVENTORY_SIZE s then (0, [])
      else if \<not> fineMode s then
        (if valid (slot s item_id) then quantity (slot s item_id) else 0,
         [smutex_lock mtx, smutex_unlock mtx])
      else
        (if valid (slot s item_id) then quantity (slot s item_id) else 0,
         [smutex_lock (item_mtx item_id), smutex_unlock (item_mtx item_id)]))"

section \<open>The task queue (TaskQueue.cpp)\<close>

text \<open>
  A function pointer of type \<open>void (*)(void*)\<close> is either null or the address of one of the
  handlers of \<open>RequestHandlers.cpp\<close>.
\<close>

datatype handler_fn =
    nullptr
  | stop_handler
  | add_item_handler
  | remove_item_handler
  | add_stock_handler
  | change_item_price_handler
  | change_item_discount_handler
  | set_shipping_cost_handler
  | set_store_discount_handler
  | buy_item_handler
  | buy_many_items_handler

text \<open>
  Modelled from the spec: the struct \<open>Task\<close> is declared in \<open>TaskQueue.h\<close>, which is not
  among the sources. The spec describes a task as an opaque pair of a handler and an
  argument, and the code reads the fields \<open>handler\<close> and \<open>arg\<close>. The argument is a
  \<open>void*\<close>: an address, \<open>0\<close> for the null pointer.
\<close>

record Task =
  handler :: handler_fn
  arg :: nat

text \<open>The member \<open>q\<close>, used through \<open>push_back\<close>, \<open>front\<close>, \<open>pop_front\<close>, \<open>size\<close> and \<open>empty\<close>.\<close>

type_synonym TaskQueue = "Task list"

definition size_q :: "TaskQueue \<Rightarrow> int \<times> event list" where
  "size_q q = (int (length q), [smutex_lock queue_mtx, smutex_unlock queue_mtx])"

definition empty_q :: "TaskQueue \<Rightarrow> bool \<times> event list" where
  "empty_q q = (q = [], [smutex_lock queue_mtx, smutex_unlock queue_mtx])"

definition enqueue :: "TaskQueue \<Rightarrow> Task \<Rightarrow> TaskQueue \<times> event list" where
  "enqueue q task =
     (q @ [task],
      [smutex_lock queue_mtx, scond_signal not_empty queue_mtx, smutex_unlock queue_mtx])"

text \<open>
  \<open>scond_wait\<close> releases the mutex of the queue and sleeps. The list \<open>env\<close> gives the
  contents of the queue as found after each successive wake-up; when it is used up the thread
  is never woken again.
\<close>

fun dequeue_loop :: "TaskQueue \<Rightarrow> TaskQueue list \<Rightarrow> (Task \<times> TaskQueue) outcome" where
  "dequeue_loop q env =
     (if q = [] then
        (case env of
           [] \<Rightarrow> Inl BlockedForever
         | q' # env' \<Rightarrow> emit [scond_wait not_empty queue_mtx] (dequeue_loop q' env'))
      else Inr ((hd q, tl q), [smutex_unlock queue_mtx]))"

declare dequeue_loop.simps [simp del]

declare dequeue_loop.simps [simp del]

definition dequeue :: "TaskQueue \<Rightarrow> TaskQueue list \<Rightarrow> (Task \<times> TaskQueue) outcome" where
  "dequeue q env = emit [smutex_lock queue_mtx] (dequeue_loop q env)"

section \<open>The worker threads (estoresim.cpp)\<close>

text \<open>How a thread ends: by \<open>sthread_exit\<close>, or by not getting any further.\<close>

datatype ending = sthread_exit | Halt halt

definition make_stop :: Task where
  "make_stop = \<lparr>handler = nullptr, arg = 0\<rparr>"

text \<open>
  The argument of a worker is the sequence of tasks that its successive calls of
  \<open>dequeue\<close> return; when it is used up the next \<open>dequeue\<close> never returns. The result is
  the list of the tasks whose handler the worker has called, in order, and the way the thread
  ends. A call through a null function pointer is undefined in C++ and ends the model in
  \<open>NullCall\<close>.
\<close>

fun supplier :: "Task list \<Rightarrow> Task list \<times> ending" where
  "supplier [] = ([], Halt BlockedForever)"
| "supplier (t # ts) =
     (if handler t = stop_handler then ([], sthread_exit)
      else if handler t = nullptr then ([], Halt NullCall)
      else (case supplier ts of (called, e) \<Rightarrow> (t # called, e)))"

fun customer :: "Task list \<Rightarrow> Task list \<times> ending" where
  "customer [] = ([], Halt BlockedForever)"
| "customer (t # ts) =
     (if handler t = stop_handler then ([], sthread_exit)
      else if handler t = nullptr then ([], Halt NullCall)
      else (case customer ts of (called, e) \<Rightarrow> (t # called, e)))"

section \<open>Notions used to state the properties\<close>

subsection \<open>The outcome of an order\<close>

text \<open>The vector \<open>ids\<close> of \<open>buyManyItems\<close> once filtered, sorted and made unique.\<close>

definition in_range_ids :: "'d EStore \<Rightarrow> int list \<Rightarrow> int list" where
  "in_range_ids s requested =
     remdups_adj (sort (filter (\<lambda>id. 0 \<le> id \<and> id < INVENTORY_SIZE s) requested))"

text \<open>The value of \<open>ok\<close> after the checking loop of \<open>buyManyItems\<close>.\<close>

definition order_accepted ::
  "('d::{zero,one,minus,times,plus,ord}) EStore \<Rightarrow> int list \<Rightarrow> 'd \<Rightarrow> bool" where
  "order_accepted s requested budget =
     order_ok s (shippingCost s) (storeDiscount s) budget 0 (in_range_ids s requested)"

text \<open>
  The store in which the quantity of every slot whose index occurs in \<open>requested\<close> is one
  less, and nothing else differs.
\<close>

definition decremented :: "'d EStore \<Rightarrow> int list \<Rightarrow> 'd EStore" where
  "decremented s requested =
     s\<lparr>inventory :=
          map (\<lambda>k. if int k \<in> set requested
                    then (inventory s ! k)\<lparr>quantity := quantity (inventory s ! k) - 1\<rparr>
                    else inventory s ! k)
              [0 ..< length (inventory s)]\<rparr>"

text \<open>The cost \<open>buyManyItems\<close> computes for slot \<open>i\<close> from the snapshot taken of state \<open>s\<close>.\<close>

definition perItemCost :: "('d::{one,minus,times,plus}) EStore \<Rightarrow> int \<Rightarrow> 'd" where
  "perItemCost s i =
     price (slot s i) * (1 - discount (slot s i)) * (1 - storeDiscount s) + shippingCost s"

text \<open>
  The running total of \<open>buyManyItems\<close> after the ids \<open>ids\<close>: the costs added one after the
  other, in the order of the list, to a total that starts at zero.
\<close>

definition running_total ::
  "('d::{zero,one,minus,times,plus}) EStore \<Rightarrow> int list \<Rightarrow> 'd" where
  "running_total s ids = foldl (\<lambda>tot i. tot + perItemCost s i) 0 ids"

text \<open>
  The condition under which, according to the specification, an order commits: every
  requested id has a valid slot with stock, and the effective costs of the distinct ids add
  up to at most the budget.
\<close>

definition claimed_commit_condition ::
  "('d::linordered_idom) EStore \<Rightarrow> int list \<Rightarrow> 'd \<Rightarrow> bool" where
  "claimed_commit_condition s requested budget =
     (list_all (\<lambda>i. 0 \<le> i \<and> i < INVENTORY_SIZE s \<and> valid (slot s i) \<and> quantity (slot s i) > 0)
        requested
      \<and> sum_list (map (perItemCost s) (remdups_adj (sort requested))) \<le> budget)"

subsection \<open>The invariant of the item slots\<close>

text \<open>
  The invariant of the data model: every slot the store carries has a quantity and a price
  that are not negative.
\<close>

definition store_inv :: "('d::{zero,ord}) EStore \<Rightarrow> bool" where
  "store_inv s =
     list_all (\<lambda>it. valid it \<longrightarrow> 0 \<le> quantity it \<and> 0 \<le> price it) (inventory s)"

subsection \<open>The locking discipline on a trace\<close>

text \<open>
  \<open>lock_protocol held tr\<close> checks a trace against the list of mutexes held so far: an item
  mutex is only locked while every item mutex already held has a smaller id, a mutex is only
  unlocked while held, an item mutex is only unlocked when every item mutex that stays held
  has a smaller id, and nothing is held at the end. \<open>acquired\<close> and \<open>released\<close> list the
  ids of the item mutexes locked and unlocked, in the order of the trace.
\<close>

fun item_id_of :: "mutex \<Rightarrow> int option" where
  "item_id_of (item_mtx i) = Some i"
| "item_id_of m = None"

definition all_below :: "int \<Rightarrow> mutex list \<Rightarrow> bool" where
  "all_below i held =
     list_all (\<lambda>m. case item_id_of m of Some j \<Rightarrow> j < i | None \<Rightarrow> True) held"

fun lock_protocol :: "mutex list \<Rightarrow> event list \<Rightarrow> bool" where
  "lock_protocol held [] = (held = [])"
| "lock_protocol held (smutex_lock m # es) =
     ((case item_id_of m of Some i \<Rightarrow> all_below i held | None \<Rightarrow> True)
      \<and> lock_protocol (m # held) es)"
| "lock_protocol held (smutex_unlock m # es) =
     (m \<in> set held
      \<and> (case item_id_of m of Some i \<Rightarrow> all_below i (remove1 m held) | None \<Rightarrow> True)
      \<and> lock_protocol (remove1 m held) es)"
| "lock_protocol held (e # es) = lock_protocol held es"

fun acquired :: "event list \<Rightarrow> int list" where
  "acquired [] = []"
| "acquired (smutex_lock (item_mtx i) # es) = i # acquired es"
| "acquired (e # es) = acquired es"

fun released :: "event list \<Rightarrow> int list" where
  "released [] = []"
| "released (smutex_unlock (item_mtx i) # es) = i # released es"
| "released (e # es) = released es"

text \<open>
  \<open>unlocks_held held tr\<close>: every \<open>smutex_unlock\<close> of the trace releases a mutex that the
  thread holds at that moment, starting from the mutexes \<open>held\<close>.
\<close>

fun unlocks_held :: "mutex list \<Rightarrow> event list \<Rightarrow> bool" where
  "unlocks_held held [] = True"
| "unlocks_held held (smutex_lock m # es) = unlocks_held (m # held) es"
| "unlocks_held held (smutex_unlock m # es) =
     (m \<in> set held \<and> unlocks_held (remove1 m held) es)"
| "unlocks_held held (e # es) = unlocks_held held es"

subsection \<open>Schedules of queue operations\<close>

text \<open>
  A schedule lists the \<open>enqueue\<close> and \<open>dequeue\<close> calls made on one queue in the order in
  which they complete. \<open>run_queue\<close> performs them from the contents \<open>q\<close> and returns the
  tasks delivered, in order, with the contents left; a \<open>dequeue\<close> that finds the queue empty
  cannot complete before the next \<open>enqueue\<close>, so such a schedule has no result.
\<close>

datatype queue_op = Enqueue Task | Dequeue

fun enqueued :: "queue_op list \<Rightarrow> Task list" where
  "enqueued [] = []"
| "enqueued (Enqueue t # ops) = t # enqueued ops"
| "enqueued (Dequeue # ops) = enqueued ops"

fun run_queue :: "queue_op list \<Rightarrow> TaskQueue \<Rightarrow> (Task list \<times> TaskQueue) option" where
  "run_queue [] q = Some ([], q)"
| "run_queue (Enqueue t # ops) q = run_queue ops (fst (enqueue q t))"
| "run_queue (Dequeue # ops) q =
     (case result_of (dequeue q []) of
        None \<Rightarrow> None
      | Some (t, q') \<Rightarrow>
          (case run_queue ops q' of
             None \<Rightarrow> None
           | Some (ts, q'') \<Rightarrow> Some (t # ts, q'')))"

subsection \<open>Concrete stores and tasks\<close>

text \<open>
  Stores over \<open>real\<close> whose amounts are numbers a \<open>double\<close> holds exactly: two in fine mode
  with the usual positive amounts, one in fine mode with a negative shipping cost, and one in
  coarse mode.
\<close>

definition store1 :: "real EStore" where
  "store1 = \<lparr>fineMode = True,
             inventory = [\<lparr>valid = True, quantity = 1, price = 10, discount = 0\<rparr>,
                          \<lparr>valid = True, quantity = 3, price = 2, discount = 0\<rparr>,
                          \<lparr>valid = False, quantity = 0, price = 0, discount = 0\<rparr>],
             shippingCost = 3, storeDiscount = 0\<rparr>"

definition store3 :: "real EStore" where
  "store3 = \<lparr>fineMode = True,
             inventory = [\<lparr>valid = True, quantity = 2, price = 10, discount = 0\<rparr>,
                          \<lparr>valid = True, quantity = 5, price = 4, discount = 1/2\<rparr>],
             shippingCost = 3, storeDiscount = 0\<rparr>"

definition store2 :: "real EStore" where
  "store2 = \<lparr>fineMode = True,
             inventory = [\<lparr>valid = True, quantity = 1, price = 10, discount = 0\<rparr>],
             shippingCost = - 20, storeDiscount = 0\<rparr>"

definition store_coarse :: "real EStore" where
  "store_coarse = \<lparr>fineMode = False,
             inventory = [\<lparr>valid = True, quantity = 1, price = 10, discount = 0\<rparr>,
                          \<lparr>valid = True, quantity = 0, price = 2, discount = 0\<rparr>,
                          \<lparr>valid = False, quantity = 0, price = 0, discount = 0\<rparr>],
             shippingCost = 3, storeDiscount = 0\<rparr>"

definition task1 :: Task where "task1 = \<lparr>handler = add_item_handler, arg = 1\<rparr>"

definition task2 :: Task where "task2 = \<lparr>handler = buy_item_handler, arg = 2\<rparr>"

definition stop_task :: Task where
  "stop_task = \<lparr>handler = stop_handler, arg = 0\<rparr>"

section \<open>Properties of buyManyItems\<close>

lemma strict_sorted_remdups_adj:
  "sorted (xs::int list) \<Longrightarrow> sorted_wrt (<) (remdups_adj xs)"
proof (induction xs rule: remdups_adj.induct)
  case (3 x y xs)
  then show ?case by (cases "x = y") (auto simp: less_le)
qed simp_all

lemma in_range_ids_sorted: "sorted_wrt (<) (in_range_ids s requested)"
  unfolding in_range_ids_def by (rule strict_sorted_remdups_adj) simp

lemma in_range_ids_distinct: "distinct (in_range_ids s requested)"
  using in_range_ids_sorted [of s requested] by (simp add: strict_sorted_iff)

lemma set_in_range_ids:
  "set (in_range_ids s requested) = {i \<in> set requested. 0 \<le> i \<and> i < INVENTORY_SIZE s}"
  by (auto simp: in_range_ids_def)

lemma commit_fields:
  "fineMode (commit s ids) = fineMode s \<and> shippingCost (commit s ids) = shippingCost s
   \<and> storeDiscount (commit s ids) = storeDiscount s
   \<and> length (inventory (commit s ids)) = length (inventory s)"
  by (induction ids arbitrary: s) (simp_all add: put_slot_def)

lemma commit_nth:
  "distinct ids \<Longrightarrow> \<forall>i\<in>set ids. 0 \<le> i \<Longrightarrow> k < length (inventory s) \<Longrightarrow>
   inventory (commit s ids) ! k =
     (if int k \<in> set ids
      then (inventory s ! k)\<lparr>quantity := quantity (inventory s ! k) - 1\<rparr>
      else inventory s ! k)"
proof (induction ids arbitrary: s)
  case Nil
  then show ?case by simp
next
  case (Cons i ids)
  let ?s1 = "put_slot s i ((slot s i)\<lparr>quantity := quantity (slot s i) - 1\<rparr>)"
  have len: "k < length (inventory ?s1)" using Cons.prems by (simp add: put_slot_def)
  have i0: "0 \<le> i" using Cons.prems by simp
  have IH: "inventory (commit ?s1 ids) ! k =
     (if int k \<in> set ids
      then (inventory ?s1 ! k)\<lparr>quantity := quantity (inventory ?s1 ! k) - 1\<rparr>
      else inventory ?s1 ! k)"
    using Cons.IH [of ?s1] Cons.prems len by simp
  show ?case
  proof (cases "int k = i")
    case True
    then have "int k \<notin> set ids" using Cons.prems by auto
    moreover have "nat i = k" using True by auto
    ultimately show ?thesis using IH True Cons.prems
      by (simp add: put_slot_def slot_def)
  next
    case False
    then have "nat i \<noteq> k" using i0 by auto
    then have "inventory ?s1 ! k = inventory s ! k"
      by (simp add: put_slot_def)
    then show ?thesis using IH False by simp
  qed
qed

lemma commit_decremented:
  assumes "distinct ids" "\<forall>i\<in>set ids. 0 \<le> i"
    and "\<forall>k < length (inventory s). (int k \<in> set ids) = (int k \<in> set requested)"
  shows "commit s ids = decremented s requested"
proof -
  have "inventory (commit s ids) = inventory (decremented s requested)"
  proof (rule nth_equalityI)
    show "length (inventory (commit s ids)) = length (inventory (decremented s requested))"
      by (simp add: commit_fields decremented_def)
  next
    fix k assume "k < length (inventory (commit s ids))"
    then have k: "k < length (inventory s)" by (simp add: commit_fields)
    show "inventory (commit s ids) ! k = inventory (decremented s requested) ! k"
      using commit_nth [OF assms(1,2) k] assms(3) k by (simp add: decremented_def)
  qed
  then show ?thesis
    using commit_fields [of s ids] by (simp add: decremented_def)
qed

lemma commit_in_range_ids: "commit s (in_range_ids s requested) = decremented s requested"
proof (rule commit_decremented)
  show "distinct (in_range_ids s requested)" by (rule in_range_ids_distinct)
  show "\<forall>i\<in>set (in_range_ids s requested). 0 \<le> i" by (simp add: set_in_range_ids)
  show "\<forall>k<length (inventory s).
          (int k \<in> set (in_range_ids s requested)) = (int k \<in> set requested)"
    by (auto simp: set_in_range_ids INVENTORY_SIZE_def)
qed

lemma decremented_none:
  "\<forall>k < length (inventory s). int k \<notin> set requested \<Longrightarrow> decremented s requested = s"
proof -
  assume a: "\<forall>k < length (inventory s). int k \<notin> set requested"
  have "map (\<lambda>k. if int k \<in> set requested
                    then (inventory s ! k)\<lparr>quantity := quantity (inventory s ! k) - 1\<rparr>
                    else inventory s ! k) [0 ..< length (inventory s)]
        = map ((!) (inventory s)) [0 ..< length (inventory s)]"
    using a by (intro map_cong) auto
  then show ?thesis by (simp add: decremented_def map_nth)
qed

lemma buyManyItems_result:
  "fineMode s \<Longrightarrow>
   result_of (buyManyItems s (Some requested) budget) =
     Some (if order_accepted s requested budget then decremented s requested else s)"
proof -
  assume f: "fineMode s"
  let ?ids0 = "filter (\<lambda>id. 0 \<le> id \<and> id < INVENTORY_SIZE s) requested"
  show ?thesis
  proof (cases "?ids0 = []")
    case True
    then have "\<forall>k < length (inventory s). int k \<notin> set requested"
      by (auto simp: filter_empty_conv INVENTORY_SIZE_def)
    then have "decremented s requested = s" by (rule decremented_none)
    then show ?thesis using f True
      by (simp add: buyManyItems_def result_of_def Let_def)
  next
    case False
    then have "requested \<noteq> []" by auto
    then show ?thesis using f False commit_in_range_ids [of s requested]
      by (simp add: buyManyItems_def result_of_def Let_def order_accepted_def in_range_ids_def)
  qed
qed

lemma order_ok_each:
  "order_ok s (shippingCost s) (storeDiscount s) budget tot ids \<Longrightarrow> i \<in> set ids \<Longrightarrow>
   valid (slot s i) \<and> 0 < quantity (slot s i) \<and> \<not> perItemCost s i < 0"
  by (induction ids arbitrary: tot) (auto simp: Let_def perItemCost_def split: if_splits)

text \<open>
  Claim C1. In fine mode a call \<open>buyManyItems(ids, budget)\<close> returns, and it is
  all-or-nothing: when the checking loop rejects the order the store is left exactly as it
  was, and when it accepts, the quantity of every slot whose index is among the requested ids
  is one less and nothing else in the store differs. A requested in-range id whose slot is
  not valid or has no stock makes the loop reject. A null vector pointer leaves the store
  unchanged as well.
\<close>

theorem buyManyItems_all_or_nothing:
  assumes "fineMode s"
  shows "result_of (buyManyItems s (Some requested) budget) =
           Some (if order_accepted s requested budget then decremented s requested else s)
         \<and> ((\<exists>i\<in>set requested. 0 \<le> i \<and> i < INVENTORY_SIZE s
                 \<and> (\<not> valid (slot s i) \<or> quantity (slot s i) \<le> 0))
              \<longrightarrow> \<not> order_accepted s requested budget)
         \<and> result_of (buyManyItems s None budget) = Some s"
proof (intro conjI)
  show "result_of (buyManyItems s (Some requested) budget) =
           Some (if order_accepted s requested budget then decremented s requested else s)"
    using assms by (rule buyManyItems_result)
next
  show "result_of (buyManyItems s None budget) = Some s"
    using assms by (simp add: buyManyItems_def result_of_def)
next
  show "(\<exists>i\<in>set requested. 0 \<le> i \<and> i < INVENTORY_SIZE s
                 \<and> (\<not> valid (slot s i) \<or> quantity (slot s i) \<le> 0))
              \<longrightarrow> \<not> order_accepted s requested budget"
  proof (intro impI notI)
    assume d: "\<exists>i\<in>set requested. 0 \<le> i \<and> i < INVENTORY_SIZE s
                 \<and> (\<not> valid (slot s i) \<or> quantity (slot s i) \<le> 0)"
      and ok: "order_accepted s requested budget"
    from d obtain i where i: "i \<in> set (in_range_ids s requested)"
      and bad: "\<not> valid (slot s i) \<or> quantity (slot s i) \<le> 0"
      by (auto simp: set_in_range_ids)
    from ok i have "valid (slot s i) \<and> 0 < quantity (slot s i)"
      unfolding order_accepted_def using order_ok_each by blast
    with bad show False by simp
  qed
qed

lemma store1_ids: "in_range_ids store1 [1, 0, 7, 1] = [0, 1]"
  by (simp add: in_range_ids_def store1_def INVENTORY_SIZE_def)

theorem buyManyItems_all_or_nothing_witness:
  "fineMode store1
   \<and> result_of (buyManyItems store1 (Some [1, 0, 7, 1]) 100) =
       Some (store1\<lparr>inventory :=
                      [\<lparr>valid = True, quantity = 0, price = 10, discount = 0\<rparr>,
                       \<lparr>valid = True, quantity = 2, price = 2, discount = 0\<rparr>,
                       \<lparr>valid = False, quantity = 0, price = 0, discount = 0\<rparr>]\<rparr>)
   \<and> (\<exists>i\<in>set [2, 0]. 0 \<le> i \<and> i < INVENTORY_SIZE store1
          \<and> (\<not> valid (slot store1 i) \<or> quantity (slot store1 i) \<le> 0))
   \<and> result_of (buyManyItems store1 (Some [2, 0]) 100) = Some store1"
proof -
  have f: "fineMode store1" by (simp add: store1_def)
  have a: "order_accepted store1 [1, 0, 7, 1] 100"
    by (simp add: order_accepted_def store1_ids) (simp add: store1_def slot_def)
  have d: "decremented store1 [1, 0, 7, 1] =
       store1\<lparr>inventory :=
                      [\<lparr>valid = True, quantity = 0, price = 10, discount = 0\<rparr>,
                       \<lparr>valid = True, quantity = 2, price = 2, discount = 0\<rparr>,
                       \<lparr>valid = False, quantity = 0, price = 0, discount = 0\<rparr>]\<rparr>"
    by (simp add: decremented_def store1_def upt_rec)
  have b: "\<exists>i\<in>set [2, 0]. 0 \<le> i \<and> i < INVENTORY_SIZE store1
          \<and> (\<not> valid (slot store1 i) \<or> quantity (slot store1 i) \<le> 0)"
    by (simp add: store1_def INVENTORY_SIZE_def slot_def)
  note t1 = buyManyItems_all_or_nothing [OF f, of "[1, 0, 7, 1]" 100]
  note t2 = buyManyItems_all_or_nothing [OF f, of "[2, 0]" 100]
  have n: "\<not> order_accepted store1 [2, 0] 100"
    using conjunct1 [OF conjunct2 [OF t2]] b by (rule mp)
  have r1: "result_of (buyManyItems store1 (Some [1, 0, 7, 1]) 100) =
       Some (store1\<lparr>inventory :=
                      [\<lparr>valid = True, quantity = 0, price = 10, discount = 0\<rparr>,
                       \<lparr>valid = True, quantity = 2, price = 2, discount = 0\<rparr>,
                       \<lparr>valid = False, quantity = 0, price = 0, discount = 0\<rparr>]\<rparr>)"
    using conjunct1 [OF t1] a d by simp
  have r2: "result_of (buyManyItems store1 (Some [2, 0]) 100) = Some store1"
    using conjunct1 [OF t2] n by simp
  show ?thesis using f r1 b r2 by (intro conjI)
qed

text \<open>
  Claim C10. In fine mode, if some requested in-range id has a per-item cost, computed from
  the snapshot of shipping cost and store discount, that is below zero, then
  \<open>buyManyItems\<close> returns with the store unchanged, whatever the budget and the state of
  the other requested slots.
\<close>

theorem buyManyItems_negative_cost_aborts:
  assumes "fineMode s" and "i \<in> set requested" and "0 \<le> i" and "i < INVENTORY_SIZE s"
    and "price (slot s i) * (1 - discount (slot s i)) * (1 - storeDiscount s)
           + shippingCost s < 0"
  shows "result_of (buyManyItems s (Some requested) budget) = Some s"
proof -
  have "i \<in> set (in_range_ids s requested)"
    using assms(2-4) by (simp add: set_in_range_ids)
  then have "\<not> order_accepted s requested budget"
    unfolding order_accepted_def using order_ok_each [of s budget 0 _ i] assms(5)
    by (auto simp: perItemCost_def)
  then show ?thesis using buyManyItems_result [OF assms(1), of requested budget] by simp
qed

theorem buyManyItems_negative_cost_aborts_witness:
  "fineMode store2 \<and> (0::int) \<in> set [0] \<and> (0::int) \<le> 0 \<and> 0 < INVENTORY_SIZE store2
   \<and> price (slot store2 0) * (1 - discount (slot store2 0)) * (1 - storeDiscount store2)
        + shippingCost store2 < 0
   \<and> valid (slot store2 0) \<and> 0 < quantity (slot store2 0)
   \<and> result_of (buyManyItems store2 (Some [0]) 100) = Some store2"
proof -
  have h: "fineMode store2" "(0::int) \<in> set [0]" "(0::int) \<le> 0" "0 < INVENTORY_SIZE store2"
    "price (slot store2 0) * (1 - discount (slot store2 0)) * (1 - storeDiscount store2)
        + shippingCost store2 < 0"
    by (simp_all add: store2_def INVENTORY_SIZE_def slot_def)
  have v: "valid (slot store2 0) \<and> 0 < quantity (slot store2 0)"
    by (simp add: store2_def slot_def)
  show ?thesis
    using buyManyItems_negative_cost_aborts [OF h, of 100] h v by simp
qed

lemma order_ok_running:
  "order_ok s (shippingCost s) (storeDiscount s) budget tot ids =
     ((\<forall>i\<in>set ids. valid (slot s i) \<and> 0 < quantity (slot s i) \<and> \<not> perItemCost s i < 0)
      \<and> (\<forall>k\<in>{1..length ids}.
            \<not> budget < foldl (\<lambda>tot i. tot + perItemCost s i) tot (take k ids)))"
proof (induction ids arbitrary: tot)
  case Nil
  then show ?case by simp
next
  case (Cons i ids)
  let ?f = "\<lambda>tot i. tot + perItemCost s i"
  have split: "(\<forall>k\<in>{1..length (i # ids)}. \<not> budget < foldl ?f tot (take k (i # ids))) =
        (\<not> budget < tot + perItemCost s i
         \<and> (\<forall>k\<in>{1..length ids}. \<not> budget < foldl ?f (tot + perItemCost s i) (take k ids)))"
  proof
    assume a: "\<forall>k\<in>{1..length (i # ids)}. \<not> budget < foldl ?f tot (take k (i # ids))"
    have "\<not> budget < foldl ?f tot (take 1 (i # ids))" using a by force
    then have one: "\<not> budget < tot + perItemCost s i" by simp
    have "\<forall>k\<in>{1..length ids}. \<not> budget < foldl ?f (tot + perItemCost s i) (take k ids)"
    proof
      fix k assume "k \<in> {1..length ids}"
      then have "Suc k \<in> {1..length (i # ids)}" by simp
      then have "\<not> budget < foldl ?f tot (take (Suc k) (i # ids))" using a by blast
      then show "\<not> budget < foldl ?f (tot + perItemCost s i) (take k ids)" by simp
    qed
    with one show "\<not> budget < tot + perItemCost s i
         \<and> (\<forall>k\<in>{1..length ids}. \<not> budget < foldl ?f (tot + perItemCost s i) (take k ids))"
      by simp
  next
    assume b: "\<not> budget < tot + perItemCost s i
         \<and> (\<forall>k\<in>{1..length ids}. \<not> budget < foldl ?f (tot + perItemCost s i) (take k ids))"
    show "\<forall>k\<in>{1..length (i # ids)}. \<not> budget < foldl ?f tot (take k (i # ids))"
    proof
      fix k assume k: "k \<in> {1..length (i # ids)}"
      show "\<not> budget < foldl ?f tot (take k (i # ids))"
      proof (cases k)
        case 0
        then show ?thesis using k by simp
      next
        case (Suc k')
        show ?thesis
        proof (cases "k' = 0")
          case True
          then show ?thesis using b Suc by simp
        next
          case False
          then have "k' \<in> {1..length ids}" using k Suc by simp
          then show ?thesis using b Suc by simp
        qed
      qed
    qed
  qed
  have step: "order_ok s (shippingCost s) (storeDiscount s) budget tot (i # ids) =
        (valid (slot s i) \<and> 0 < quantity (slot s i) \<and> \<not> perItemCost s i < 0
         \<and> \<not> budget < tot + perItemCost s i
         \<and> order_ok s (shippingCost s) (storeDiscount s) budget (tot + perItemCost s i) ids)"
    by (auto simp: Let_def perItemCost_def not_le)
  show ?case
    unfolding step Cons.IH split by auto
qed

text \<open>
  Claim C2, as amended. In fine mode, for a request whose ids are all in range, the order
  commits (each distinct requested id loses one unit, nothing else changes) exactly when
  every requested slot is valid and in stock, no requested item has an effective cost below
  zero, and the running total of the effective costs of the distinct ids, added up in
  ascending order of id from zero with the shipping cost and store discount read at the
  start of the call, is at no point greater than the budget; otherwise the store is
  unchanged. No law of arithmetic is assumed, so this holds of the sums and comparisons as
  \<open>double\<close> computes them.
\<close>

theorem buyManyItems_commit_condition:
  fixes s :: "('d::{zero,one,minus,times,plus,ord}) EStore"
  assumes "fineMode s" and "\<forall>i\<in>set requested. 0 \<le> i \<and> i < INVENTORY_SIZE s"
  shows "result_of (buyManyItems s (Some requested) budget) =
     Some (if (\<forall>i\<in>set requested. valid (slot s i) \<and> 0 < quantity (slot s i)
                                   \<and> \<not> perItemCost s i < 0)
              \<and> (\<forall>k\<in>{1..length (remdups_adj (sort requested))}.
                    \<not> budget < running_total s (take k (remdups_adj (sort requested))))
           then decremented s requested else s)"
proof -
  have ids: "in_range_ids s requested = remdups_adj (sort requested)"
    using assms(2) by (simp add: in_range_ids_def)
  have "order_accepted s requested budget =
     ((\<forall>i\<in>set requested. valid (slot s i) \<and> 0 < quantity (slot s i)
                            \<and> \<not> perItemCost s i < 0)
      \<and> (\<forall>k\<in>{1..length (remdups_adj (sort requested))}.
            \<not> budget < running_total s (take k (remdups_adj (sort requested)))))"
    unfolding order_accepted_def order_ok_running ids running_total_def by simp
  then show ?thesis using buyManyItems_result [OF assms(1), of requested budget] by simp
qed

theorem buyManyItems_commit_condition_witness:
  "fineMode store3 \<and> list_all (\<lambda>i. 0 \<le> i \<and> i < INVENTORY_SIZE store3) [1, 0, 1]
   \<and> remdups_adj (sort [1, 0, 1 :: int]) = [0, 1]
   \<and> perItemCost store3 0 = 13 \<and> perItemCost store3 1 = 5
   \<and> running_total store3 (take 1 [0, 1]) = 13
   \<and> running_total store3 (take 2 [0, 1]) = 18
   \<and> result_of (buyManyItems store3 (Some [1, 0, 1]) 18) =
       Some (store3\<lparr>inventory :=
                      [\<lparr>valid = True, quantity = 1, price = 10, discount = 0\<rparr>,
                       \<lparr>valid = True, quantity = 4, price = 4, discount = 1/2\<rparr>]\<rparr>)
   \<and> result_of (buyManyItems store3 (Some [1, 0, 1]) 17) = Some store3"
proof -
  have f: "fineMode store3" by (simp add: store3_def)
  have r: "\<forall>i\<in>set [1, 0, 1]. 0 \<le> i \<and> i < INVENTORY_SIZE store3"
    by (simp add: store3_def INVENTORY_SIZE_def)
  have so: "remdups_adj (sort [1, 0, 1 :: int]) = [0, 1]" by simp
  have c: "perItemCost store3 0 = 13" "perItemCost store3 1 = 5"
    by (simp_all add: perItemCost_def store3_def slot_def)
  have t1: "running_total store3 (take 1 [0, 1]) = 13"
    and t2: "running_total store3 (take 2 [0, 1]) = 18"
    using c by (simp_all add: running_total_def)
  have v: "\<forall>i\<in>set [1, 0, 1]. valid (slot store3 i) \<and> 0 < quantity (slot store3 i)
                                   \<and> \<not> perItemCost store3 i < 0"
    using c by (simp add: store3_def slot_def)
  have ks: "{1..length [0, 1 :: int]} = {1, 2}" by auto
  have b18: "\<forall>k\<in>{1..length (remdups_adj (sort [1, 0, 1 :: int]))}.
               \<not> (18::real) < running_total store3 (take k (remdups_adj (sort [1, 0, 1])))"
    unfolding so ks using t1 t2 by simp
  have b17: "\<not> (\<forall>k\<in>{1..length (remdups_adj (sort [1, 0, 1 :: int]))}.
               \<not> (17::real) < running_total store3 (take k (remdups_adj (sort [1, 0, 1]))))"
    unfolding so ks using t1 t2 by simp
  have d: "decremented store3 [1, 0, 1] =
       store3\<lparr>inventory :=
                      [\<lparr>valid = True, quantity = 1, price = 10, discount = 0\<rparr>,
                       \<lparr>valid = True, quantity = 4, price = 4, discount = 1/2\<rparr>]\<rparr>"
    by (simp add: decremented_def store3_def upt_rec)
  have r1: "result_of (buyManyItems store3 (Some [1, 0, 1]) 18) =
       Some (store3\<lparr>inventory :=
                      [\<lparr>valid = True, quantity = 1, price = 10, discount = 0\<rparr>,
                       \<lparr>valid = True, quantity = 4, price = 4, discount = 1/2\<rparr>]\<rparr>)"
    using buyManyItems_commit_condition [OF f r, of 18] v b18 d by simp
  have n17: "\<not> ((\<forall>i\<in>set [1, 0, 1]. valid (slot store3 i) \<and> 0 < quantity (slot store3 i)
                                   \<and> \<not> perItemCost store3 i < 0)
              \<and> (\<forall>k\<in>{1..length (remdups_adj (sort [1, 0, 1 :: int]))}.
                    \<not> (17::real) < running_total store3
                                       (take k (remdups_adj (sort [1, 0, 1])))))"
    using b17 by blast
  have r2: "result_of (buyManyItems store3 (Some [1, 0, 1]) 17) = Some store3"
    using buyManyItems_commit_condition [OF f r, of 17] unfolding if_not_P [OF n17] .
  have r': "list_all (\<lambda>i. 0 \<le> i \<and> i < INVENTORY_SIZE store3) [1, 0, 1]"
    using r by simp
  show ?thesis using f r' so c t1 t2 r1 r2 by (intro conjI)
qed

text \<open>
  The condition of claim C2 as first stated is not sufficient: with a shipping cost of
  \<open>-20\<close> the single requested item costs \<open>-10\<close>, within a budget of \<open>0\<close>, its slot is
  valid and in stock, and yet nothing is bought.
\<close>

theorem buyManyItems_commit_condition_counterexample:
  "fineMode store2
   \<and> claimed_commit_condition store2 [0] 0
   \<and> result_of (buyManyItems store2 (Some [0]) 0) = Some store2
   \<and> decremented store2 [0] \<noteq> store2"
  by (simp add: store2_def claimed_commit_condition_def perItemCost_def slot_def
      INVENTORY_SIZE_def buyManyItems_def result_of_def decremented_def)

section \<open>The lock order of buyManyItems\<close>

lemma acquired_locks: "acquired (map (\<lambda>i. smutex_lock (item_mtx i)) ids @ es) = ids @ acquired es"
  by (induction ids) simp_all

lemma acquired_unlocks: "acquired (map (\<lambda>i. smutex_unlock (item_mtx i)) ids) = []"
  by (induction ids) simp_all

lemma released_locks: "released (map (\<lambda>i. smutex_lock (item_mtx i)) ids @ es) = released es"
  by (induction ids) simp_all

lemma released_unlocks: "released (map (\<lambda>i. smutex_unlock (item_mtx i)) ids) = ids"
  by (induction ids) simp_all

lemma all_below_Cons:
  "all_below i (item_mtx j # held) = (j < i \<and> all_below i held)"
  by (simp add: all_below_def)

lemma all_below_items: "all_below i (map item_mtx hs) = (\<forall>j\<in>set hs. j < i)"
  by (induction hs) (simp_all add: all_below_def)

lemma lock_protocol_acquire:
  "sorted_wrt (<) ids \<Longrightarrow> \<forall>i\<in>set ids. all_below i held \<Longrightarrow>
   lock_protocol held (map (\<lambda>i. smutex_lock (item_mtx i)) ids @ es) =
   lock_protocol (map item_mtx (rev ids) @ held) es"
proof (induction ids arbitrary: held)
  case Nil
  then show ?case by simp
next
  case (Cons i ids)
  have "\<forall>j\<in>set ids. all_below j (item_mtx i # held)"
    using Cons.prems by (auto simp: all_below_Cons)
  moreover have "sorted_wrt (<) ids" using Cons.prems by simp
  ultimately have "lock_protocol (item_mtx i # held)
       (map (\<lambda>i. smutex_lock (item_mtx i)) ids @ es) =
     lock_protocol (map item_mtx (rev ids) @ item_mtx i # held) es"
    using Cons.IH [of "item_mtx i # held"] by blast
  then show ?case using Cons.prems by simp
qed

lemma lock_protocol_release:
  "sorted_wrt (\<lambda>a b. b < a) hs \<Longrightarrow>
   lock_protocol (map item_mtx hs) (map (\<lambda>i. smutex_unlock (item_mtx i)) hs)"
  by (induction hs) (auto simp: all_below_items)

lemma buyManyItems_trace:
  "trace_of (buyManyItems s item_ids budget) = [] \<or>
   (\<exists>requested. item_ids = Some requested \<and> fineMode s \<and>
    trace_of (buyManyItems s item_ids budget) =
      [smutex_lock global_mtx, smutex_unlock global_mtx]
      @ map (\<lambda>i. smutex_lock (item_mtx i)) (in_range_ids s requested)
      @ map (\<lambda>i. smutex_unlock (item_mtx i)) (rev (in_range_ids s requested)))"
  by (auto simp: buyManyItems_def trace_of_def Let_def in_range_ids_def split: option.splits)

lemma buyManyItems_acquired:
  "fineMode s \<Longrightarrow>
   acquired (trace_of (buyManyItems s (Some requested) budget)) = in_range_ids s requested"
  by (simp add: buyManyItems_def trace_of_def Let_def in_range_ids_def acquired_locks
      acquired_unlocks)

text \<open>
  Claim C3. Whatever the store, the request and the budget, the call locks the item mutexes
  in strictly ascending order of id, never locking one while holding one of greater or equal
  id, unlocks them in strictly descending order, the reverse of the order of acquisition,
  and holds none when it returns, whether it commits or aborts. In fine mode the item
  mutexes taken are exactly those of the requested ids that are in range.
\<close>

theorem buyManyItems_lock_order:
  "lock_protocol [] (trace_of (buyManyItems s item_ids budget))
   \<and> sorted_wrt (<) (acquired (trace_of (buyManyItems s item_ids budget)))
   \<and> sorted_wrt (\<lambda>a b. b < a) (released (trace_of (buyManyItems s item_ids budget)))
   \<and> released (trace_of (buyManyItems s item_ids budget))
       = rev (acquired (trace_of (buyManyItems s item_ids budget)))
   \<and> (fineMode s \<longrightarrow>
        set (acquired (trace_of (buyManyItems s (Some requested) budget)))
          = {i \<in> set requested. 0 \<le> i \<and> i < INVENTORY_SIZE s})"
proof -
  let ?tr = "trace_of (buyManyItems s item_ids budget)"
  have main: "lock_protocol [] ?tr \<and> sorted_wrt (<) (acquired ?tr)
     \<and> sorted_wrt (\<lambda>a b. b < a) (released ?tr) \<and> released ?tr = rev (acquired ?tr)"
  proof (rule disjE [OF buyManyItems_trace [of s item_ids budget]])
    assume "?tr = []"
    then show ?thesis by simp
  next
    assume "\<exists>requested. item_ids = Some requested \<and> fineMode s \<and>
      ?tr = [smutex_lock global_mtx, smutex_unlock global_mtx]
        @ map (\<lambda>i. smutex_lock (item_mtx i)) (in_range_ids s requested)
        @ map (\<lambda>i. smutex_unlock (item_mtx i)) (rev (in_range_ids s requested))"
    then obtain requested where tr: "?tr = [smutex_lock global_mtx, smutex_unlock global_mtx]
        @ map (\<lambda>i. smutex_lock (item_mtx i)) (in_range_ids s requested)
        @ map (\<lambda>i. smutex_unlock (item_mtx i)) (rev (in_range_ids s requested))"
      by blast
    let ?ids = "in_range_ids s requested"
    have so: "sorted_wrt (<) ?ids" by (rule in_range_ids_sorted)
    then have sr: "sorted_wrt (\<lambda>a b. b < a) (rev ?ids)" by (simp add: sorted_wrt_rev)
    have acq: "acquired ?tr = ?ids"
      unfolding tr by (simp add: acquired_locks acquired_unlocks)
    have rel: "released ?tr = rev ?ids"
      unfolding tr by (simp add: released_locks released_unlocks)
    have "lock_protocol [] (map (\<lambda>i. smutex_lock (item_mtx i)) ?ids
            @ map (\<lambda>i. smutex_unlock (item_mtx i)) (rev ?ids))
          = lock_protocol (map item_mtx (rev ?ids) @ [])
              (map (\<lambda>i. smutex_unlock (item_mtx i)) (rev ?ids))"
      by (rule lock_protocol_acquire [OF so]) (simp add: all_below_def)
    then have "lock_protocol [] (map (\<lambda>i. smutex_lock (item_mtx i)) ?ids
            @ map (\<lambda>i. smutex_unlock (item_mtx i)) (rev ?ids))"
      using lock_protocol_release [OF sr] by simp
    then have "lock_protocol [] ?tr" unfolding tr by (simp add: all_below_def)
    then show ?thesis using acq rel so sr by simp
  qed
  have "fineMode s \<longrightarrow>
        set (acquired (trace_of (buyManyItems s (Some requested) budget)))
          = {i \<in> set requested. 0 \<le> i \<and> i < INVENTORY_SIZE s}"
    by (simp add: buyManyItems_acquired set_in_range_ids)
  with main show ?thesis by (elim conjE, intro conjI) assumption+
qed

theorem buyManyItems_lock_order_witness:
  "fineMode store1
   \<and> trace_of (buyManyItems store1 (Some [1, 0, 7, 1]) 100) =
       [smutex_lock global_mtx, smutex_unlock global_mtx,
        smutex_lock (item_mtx 0), smutex_lock (item_mtx 1),
        smutex_unlock (item_mtx 1), smutex_unlock (item_mtx 0)]
   \<and> lock_protocol [] (trace_of (buyManyItems store1 (Some [1, 0, 7, 1]) 100))
   \<and> set (acquired (trace_of (buyManyItems store1 (Some [1, 0, 7, 1]) 100)))
          = {i \<in> set [1, 0, 7, 1]. 0 \<le> i \<and> i < INVENTORY_SIZE store1}"
proof -
  have f: "fineMode store1" by (simp add: store1_def)
  have t: "trace_of (buyManyItems store1 (Some [1, 0, 7, 1]) 100) =
       [smutex_lock global_mtx, smutex_unlock global_mtx,
        smutex_lock (item_mtx 0), smutex_lock (item_mtx 1),
        smutex_unlock (item_mtx 1), smutex_unlock (item_mtx 0)]"
    by (simp add: buyManyItems_def trace_of_def store1_def INVENTORY_SIZE_def Let_def)
  note th = buyManyItems_lock_order [of store1 "Some [1, 0, 7, 1]" 100 "[1, 0, 7, 1]"]
  have p: "lock_protocol [] (trace_of (buyManyItems store1 (Some [1, 0, 7, 1]) 100))"
    using th by (rule conjunct1)
  have a: "set (acquired (trace_of (buyManyItems store1 (Some [1, 0, 7, 1]) 100)))
          = {i \<in> set [1, 0, 7, 1]. 0 \<le> i \<and> i < INVENTORY_SIZE store1}"
    using th f by blast
  show ?thesis using f t p a by (intro conjI)
qed

section \<open>The store-wide setters\<close>

lemma unlocks_held_broadcasts:
  "unlocks_held held (map (\<lambda>i. scond_broadcast (item_cv (int i)) mtx) ks @ es) =
   unlocks_held held es"
  by (induction ks) simp_all

lemma unlocks_held_wake_fine:
  "unlocks_held held
     (concat (map (\<lambda>i. [smutex_lock (item_mtx (int i)),
                          scond_broadcast (item_cv_fine (int i)) (item_mtx (int i)),
                          smutex_unlock (item_mtx (int i))]) ks) @ es) =
   unlocks_held held es"
  by (induction ks) simp_all

lemma setShippingCost_unlocks_unheld:
  "\<not> unlocks_held [] (snd (setShippingCost s cost))"
  by (simp add: setShippingCost_def Let_def wake_all_coarse_def wake_all_fine_def
      unlocks_held_broadcasts unlocks_held_wake_fine)

lemma setStoreDiscount_unlocks_unheld:
  "\<not> unlocks_held [] (snd (setStoreDiscount s disc))"
  by (simp add: setStoreDiscount_def Let_def wake_all_coarse_def wake_all_fine_def
      unlocks_held_broadcasts unlocks_held_wake_fine)

text \<open>
  Claim C6 asks that \<open>setShippingCost\<close> and \<open>setStoreDiscount\<close> unlock only mutexes they
  hold. The code does not: after the two branches join, both setters call
  \<open>smutex_unlock(&mtx)\<close> once more. In fine mode \<open>mtx\<close> was never locked; in coarse mode it
  has just been unlocked. The traces below are those of the two setters on a fine-mode and on
  a coarse-mode store, with a value that wakes nobody; the two lemmas above show the same for
  every store and every argument.
\<close>

theorem setters_final_unlock:
  "snd (setShippingCost store1 5) =
     [smutex_lock global_mtx, smutex_unlock global_mtx, smutex_unlock mtx]
   \<and> \<not> unlocks_held [] (snd (setShippingCost store1 5))
   \<and> snd (setShippingCost store_coarse 5) =
     [smutex_lock mtx, smutex_unlock mtx, smutex_unlock mtx]
   \<and> \<not> unlocks_held [] (snd (setShippingCost store_coarse 5))
   \<and> snd (setStoreDiscount store1 0) =
     [smutex_lock global_mtx, smutex_unlock global_mtx, smutex_unlock mtx]
   \<and> \<not> unlocks_held [] (snd (setStoreDiscount store1 0))
   \<and> snd (setStoreDiscount store_coarse 0) =
     [smutex_lock mtx, smutex_unlock mtx, smutex_unlock mtx]
   \<and> \<not> unlocks_held [] (snd (setStoreDiscount store_coarse 0))"
  by (simp add: setShippingCost_def setStoreDiscount_def store1_def store_coarse_def)

section \<open>Ids outside the inventory\<close>

lemma out_of_range_ignored:
  assumes "item_id < 0 \<or> INVENTORY_SIZE s \<le> item_id"
  shows "addItem s item_id q p d = (s, [])"
    and "removeItem s item_id = (s, [])"
    and "addStock s item_id c = Inr (s, [])"
    and "priceItem s item_id p = (s, [])"
    and "discountItem s item_id d = (s, [])"
    and "getItemQuantity s item_id = (0, [])"
    and "\<not> fineMode s \<Longrightarrow> buyItem s item_id budget env = Inr (s, [])"
    and "fineMode s \<Longrightarrow> result_of (buyManyItems s (Some [item_id]) budget) = Some s"
  using assms
  by (auto simp: addItem_def removeItem_def addStock_def priceItem_def discountItem_def
      getItemQuantity_def buyItem_def buyManyItems_def result_of_def)

text \<open>
  Claim C5 asks that an out-of-range id never leads to a state change or a purchase. That
  holds for each operation taking a single id (lemma \<open>out_of_range_ignored\<close>), but not for
  \<open>buyManyItems\<close> on a list that mixes ids: the out-of-range id 7 is dropped from the order
  and item 0 is bought, whereas the same order with the in-range id 2 of a slot the store
  does not carry buys nothing.
\<close>

theorem buyManyItems_out_of_range_id:
  "fineMode store1 \<and> \<not> (7 < INVENTORY_SIZE store1)
   \<and> result_of (buyManyItems store1 (Some [0, 7]) 100) =
       Some (store1\<lparr>inventory :=
                      [\<lparr>valid = True, quantity = 0, price = 10, discount = 0\<rparr>,
                       \<lparr>valid = True, quantity = 3, price = 2, discount = 0\<rparr>,
                       \<lparr>valid = False, quantity = 0, price = 0, discount = 0\<rparr>]\<rparr>)
   \<and> result_of (buyManyItems store1 (Some [0, 2]) 100) = Some store1"
  by (simp add: buyManyItems_def result_of_def store1_def INVENTORY_SIZE_def slot_def
      put_slot_def)

section \<open>The invariant of the item slots\<close>

lemma store_inv_put_slot:
  "store_inv s \<Longrightarrow> (valid it \<longrightarrow> 0 \<le> quantity it \<and> 0 \<le> price it) \<Longrightarrow>
   store_inv (put_slot s i it)"
  unfolding store_inv_def put_slot_def list_all_iff
  using set_update_subset_insert [of "inventory s" "nat i" it] by auto

lemma store_inv_slot:
  "store_inv s \<Longrightarrow> nat i < length (inventory s) \<Longrightarrow> valid (slot s i) \<Longrightarrow>
   0 \<le> quantity (slot s i) \<and> 0 \<le> price (slot s i)"
  unfolding store_inv_def slot_def list_all_iff by (simp add: nth_mem)

lemma store_inv_decrement:
  assumes "store_inv s" "valid (slot s i)" "0 < quantity (slot s i)"
  shows "store_inv (put_slot s i ((slot s i)\<lparr>quantity := quantity (slot s i) - 1\<rparr>))"
proof (cases "nat i < length (inventory s)")
  case True
  then have "0 \<le> price (slot s i)" using assms store_inv_slot by blast
  then show ?thesis using assms by (intro store_inv_put_slot) simp_all
next
  case False
  then have "(inventory s)[nat i := (slot s i)\<lparr>quantity := quantity (slot s i) - 1\<rparr>]
               = inventory s"
    by (intro list_update_beyond) simp
  then have "put_slot s i ((slot s i)\<lparr>quantity := quantity (slot s i) - 1\<rparr>) = s"
    by (simp add: put_slot_def)
  then show ?thesis using assms(1) by simp
qed

lemma store_inv_globals:
  "store_inv (s\<lparr>shippingCost := c\<rparr>) = store_inv s"
  "store_inv (s\<lparr>storeDiscount := c\<rparr>) = store_inv s"
  by (simp_all add: store_inv_def)

lemma in_range_nat: "\<not> (i < 0 \<or> INVENTORY_SIZE s \<le> i) \<Longrightarrow> nat i < length (inventory s)"
  by (auto simp: INVENTORY_SIZE_def)

lemma store_inv_addItem:
  "store_inv s \<Longrightarrow> 0 \<le> q \<Longrightarrow> 0 \<le> p \<Longrightarrow> store_inv (fst (addItem s i q p d))"
  by (simp add: addItem_def store_inv_put_slot)

lemma store_inv_removeItem: "store_inv s \<Longrightarrow> store_inv (fst (removeItem s i))"
  by (simp add: removeItem_def store_inv_put_slot)

lemma store_inv_addStock:
  assumes "store_inv s" "result_of (addStock s i c) = Some s'"
  shows "store_inv s'"
proof (cases "\<not> (i < 0 \<or> INVENTORY_SIZE s \<le> i) \<and> valid (slot s i) \<and> 0 < c")
  case True
  then have "0 \<le> quantity (slot s i) \<and> 0 \<le> price (slot s i)"
    using assms(1) store_inv_slot in_range_nat by blast
  then have "store_inv (put_slot s i ((slot s i)\<lparr>quantity := quantity (slot s i) + c\<rparr>))"
    using assms(1) True by (intro store_inv_put_slot) simp_all
  then show ?thesis using assms(2) True
    by (auto simp: addStock_def result_of_def split: if_splits)
next
  case False
  then have "s' = s" using assms(2)
    by (auto simp: addStock_def result_of_def split: if_splits)
  then show ?thesis using assms(1) by simp
qed

lemma store_inv_priceItem:
  "store_inv s \<Longrightarrow> 0 \<le> p \<Longrightarrow> store_inv (fst (priceItem s i p))"
proof (cases "\<not> (i < 0 \<or> INVENTORY_SIZE s \<le> i) \<and> valid (slot s i)")
  case True
  assume a: "store_inv s" "0 \<le> p"
  have "0 \<le> quantity (slot s i)" using a(1) True store_inv_slot in_range_nat by blast
  then have "store_inv (put_slot s i ((slot s i)\<lparr>price := p\<rparr>))"
    using a by (intro store_inv_put_slot) simp_all
  then show ?thesis using True by (simp add: priceItem_def Let_def)
next
  case False
  assume "store_inv s"
  then show ?thesis using False by (auto simp: priceItem_def Let_def)
qed

lemma store_inv_discountItem:
  "store_inv s \<Longrightarrow> store_inv (fst (discountItem s i d))"
proof (cases "\<not> (i < 0 \<or> INVENTORY_SIZE s \<le> i) \<and> valid (slot s i)")
  case True
  assume a: "store_inv s"
  have "0 \<le> quantity (slot s i) \<and> 0 \<le> price (slot s i)"
    using a True store_inv_slot in_range_nat by blast
  then have "store_inv (put_slot s i ((slot s i)\<lparr>discount := d\<rparr>))"
    using a by (intro store_inv_put_slot) simp_all
  then show ?thesis using True by (simp add: discountItem_def Let_def)
next
  case False
  assume "store_inv s"
  then show ?thesis using False by (auto simp: discountItem_def Let_def)
qed

lemma result_of_simps:
  "result_of (Inl h) = None" "result_of (Inr (x, tr)) = Some x"
  by (simp_all add: result_of_def)

lemma result_of_emit: "result_of (emit es r) = result_of r"
  by (auto simp: result_of_def emit_def split: sum.splits)

lemma buyItem_loop_cases:
  "buyItem_loop s i budget env =
     (if \<not> valid (slot s i) then Inr (s, [smutex_unlock mtx])
      else if 0 < quantity (slot s i) \<and> totalCost_nolock s (slot s i) \<le> budget
      then Inr (put_slot s i ((slot s i)\<lparr>quantity := quantity (slot s i) - 1\<rparr>),
                [smutex_unlock mtx])
      else case env of [] \<Rightarrow> Inl BlockedForever
           | s' # env' \<Rightarrow>
               emit [scond_wait (item_cv i) mtx] (buyItem_loop s' i budget env'))"
  by (subst buyItem_loop.simps) (simp add: Let_def)

lemma store_inv_buyItem_loop:
  "store_inv s \<Longrightarrow> list_all store_inv env \<Longrightarrow>
   result_of (buyItem_loop s i budget env) = Some s' \<Longrightarrow> store_inv s'"
proof (induction env arbitrary: s)
  case Nil
  then show ?case
    using store_inv_decrement [of s i]
    by (subst (asm) buyItem_loop_cases) (auto simp: result_of_def split: if_splits)
next
  case (Cons e env)
  show ?case
  proof (cases "valid (slot s i) \<and> \<not> (0 < quantity (slot s i)
                  \<and> totalCost_nolock s (slot s i) \<le> budget)")
    case True
    have "buyItem_loop s i budget (e # env) =
            emit [scond_wait (item_cv i) mtx] (buyItem_loop e i budget env)"
      using True by (subst buyItem_loop_cases) auto
    then have "result_of (buyItem_loop e i budget env) = Some s'"
      using Cons.prems(3) by (simp add: result_of_emit)
    then show ?thesis using Cons.IH [of e] Cons.prems(2) by simp
  next
    case False
    then have "result_of (buyItem_loop s i budget (e # env)) =
       Some (if valid (slot s i)
             then put_slot s i ((slot s i)\<lparr>quantity := quantity (slot s i) - 1\<rparr>)
             else s)"
      by (subst buyItem_loop_cases) (auto simp: result_of_def)
    then show ?thesis
      using Cons.prems(1,3) False store_inv_decrement [of s i]
      by (auto split: if_splits)
  qed
qed

lemma store_inv_buyItem:
  "store_inv s \<Longrightarrow> list_all store_inv env \<Longrightarrow>
   result_of (buyItem s i budget env) = Some s' \<Longrightarrow> store_inv s'"
  using store_inv_buyItem_loop [of s env i budget s']
  by (auto simp: buyItem_def result_of_emit result_of_simps split: if_splits)

lemma store_inv_decremented:
  assumes "store_inv s" "order_accepted s requested budget"
  shows "store_inv (decremented s requested)"
proof -
  have "\<And>k. k < length (inventory s) \<Longrightarrow> int k \<in> set requested \<Longrightarrow>
          valid (inventory s ! k) \<and> 0 < quantity (inventory s ! k)"
  proof -
    fix k assume k: "k < length (inventory s)" "int k \<in> set requested"
    then have "int k \<in> set (in_range_ids s requested)"
      by (simp add: set_in_range_ids INVENTORY_SIZE_def)
    then show "valid (inventory s ! k) \<and> 0 < quantity (inventory s ! k)"
      using assms(2) order_ok_each [of s budget 0 "in_range_ids s requested" "int k"]
      by (simp add: order_accepted_def slot_def)
  qed
  moreover have "\<And>k. k < length (inventory s) \<Longrightarrow> valid (inventory s ! k) \<Longrightarrow>
          0 \<le> quantity (inventory s ! k) \<and> 0 \<le> price (inventory s ! k)"
    using assms(1) by (simp add: store_inv_def list_all_length)
  ultimately show ?thesis
    by (auto simp: store_inv_def decremented_def list_all_length)
qed

lemma store_inv_buyManyItems:
  assumes "store_inv s" "result_of (buyManyItems s item_ids budget) = Some s'"
  shows "store_inv s'"
proof (cases item_ids)
  case None
  then show ?thesis using assms by (auto simp: buyManyItems_def result_of_def split: if_splits)
next
  case (Some requested)
  have f: "fineMode s"
    using assms(2) by (auto simp: buyManyItems_def result_of_def split: if_splits)
  show ?thesis
    using assms buyManyItems_result [OF f, of requested budget] store_inv_decremented Some
    by (auto split: if_splits)
qed

text \<open>
  Claim C7, as amended. From a store in which every valid slot has a non-negative quantity
  and price, the same holds after \<open>removeItem\<close>, \<open>discountItem\<close>, \<open>buyItem\<close> (when the
  stores it finds after waiting satisfy it too), \<open>buyManyItems\<close>, \<open>setShippingCost\<close> and
  \<open>setStoreDiscount\<close> for all arguments, after \<open>addStock\<close> whenever the sum stays within
  the range of \<open>int\<close>, after \<open>addItem\<close> when the quantity and price passed are not
  negative, and after \<open>priceItem\<close> when the price passed is not negative.
\<close>

theorem store_inv_preserved:
  assumes "store_inv s"
  shows "(0 \<le> q \<and> 0 \<le> p \<longrightarrow> store_inv (fst (addItem s i q p d)))
    \<and> store_inv (fst (removeItem s i))
    \<and> (\<forall>s'. result_of (addStock s i c) = Some s' \<longrightarrow> store_inv s')
    \<and> (0 \<le> p \<longrightarrow> store_inv (fst (priceItem s i p)))
    \<and> store_inv (fst (discountItem s i d))
    \<and> (\<forall>s'. list_all store_inv env \<and> result_of (buyItem s i budget env) = Some s'
            \<longrightarrow> store_inv s')
    \<and> (\<forall>s'. result_of (buyManyItems s item_ids budget) = Some s' \<longrightarrow> store_inv s')
    \<and> store_inv (fst (setShippingCost s d))
    \<and> store_inv (fst (setStoreDiscount s d))"
proof -
  have g: "store_inv (fst (setShippingCost s d))" "store_inv (fst (setStoreDiscount s d))"
    using assms by (simp_all add: setShippingCost_def setStoreDiscount_def Let_def
        store_inv_globals)
  show ?thesis
    using assms store_inv_addItem [of s q p i d] store_inv_removeItem [of s i]
      store_inv_addStock [of s i c] store_inv_priceItem [of s p i]
      store_inv_discountItem [of s i d] store_inv_buyItem [of s env i budget]
      store_inv_buyManyItems [of s item_ids budget] g
    by blast
qed

theorem store_inv_preserved_witness:
  "store_inv store_coarse \<and> (0::int) \<le> 4 \<and> (0::real) \<le> 1
   \<and> store_inv (fst (addItem store_coarse 2 4 1 0))
   \<and> (\<exists>s'. result_of (addStock store_coarse 0 5) = Some s' \<and> store_inv s')
   \<and> store_inv (fst (priceItem store_coarse 0 1))
   \<and> list_all store_inv [store_coarse\<lparr>shippingCost := 1\<rparr>]
   \<and> (\<exists>s'. result_of (buyItem store_coarse 0 12 [store_coarse\<lparr>shippingCost := 1\<rparr>]) = Some s'
            \<and> store_inv s')
   \<and> store_inv store1
   \<and> (\<exists>s'. result_of (buyManyItems store1 (Some [0, 1]) 100) = Some s' \<and> store_inv s')"
proof -
  have i1: "store_inv store_coarse" and i2: "store_inv store1"
    by (simp_all add: store_inv_def store_coarse_def store1_def)
  have e: "list_all store_inv [store_coarse\<lparr>shippingCost := 1\<rparr>]"
    using i1 by (simp add: store_inv_globals)
  note c = store_inv_preserved [OF i1, where q = 4 and p = 1 and i = 2 and d = 0]
  note c0 = store_inv_preserved [OF i1, where p = 1 and i = 0 and c = 5 and budget = 12
      and env = "[store_coarse\<lparr>shippingCost := 1\<rparr>]"]
  note f = store_inv_preserved [OF i2, where item_ids = "Some [0, 1]" and budget = 100]
  have a: "\<exists>s'. result_of (addStock store_coarse 0 5) = Some s'"
    by (simp add: addStock_def store_coarse_def INVENTORY_SIZE_def slot_def result_of_simps
        INT_MAX_def)
  have b: "\<exists>s'. result_of (buyItem store_coarse 0 12 [store_coarse\<lparr>shippingCost := 1\<rparr>])
            = Some s'"
    by (simp add: buyItem_def buyItem_loop_cases store_coarse_def INVENTORY_SIZE_def slot_def
        totalCost_nolock_def result_of_simps result_of_emit)
  have m: "\<exists>s'. result_of (buyManyItems store1 (Some [0, 1]) 100) = Some s'"
    using buyManyItems_result [of store1 "[0, 1]" 100] by (simp add: store1_def)
  have w1: "store_inv (fst (addItem store_coarse 2 4 1 0))" using c by simp
  have w2: "\<exists>s'. result_of (addStock store_coarse 0 5) = Some s' \<and> store_inv s'"
    using c0 a by blast
  have w3: "store_inv (fst (priceItem store_coarse 0 1))" using c0 by simp
  have w4: "\<exists>s'. result_of (buyItem store_coarse 0 12 [store_coarse\<lparr>shippingCost := 1\<rparr>])
             = Some s' \<and> store_inv s'"
    using c0 b e by blast
  have w5: "\<exists>s'. result_of (buyManyItems store1 (Some [0, 1]) 100) = Some s' \<and> store_inv s'"
    using f m by blast
  show ?thesis using i1 i2 e w1 w2 w3 w4 w5 by simp
qed

text \<open>
  Without those conditions on the arguments the invariant is lost: \<open>addItem\<close> stores a
  negative quantity and \<open>priceItem\<close> a negative price as they are.
\<close>

theorem store_inv_preserved_counterexample:
  "store_inv store1
   \<and> \<not> store_inv (fst (addItem store1 2 (- 5) 1 0))
   \<and> \<not> store_inv (fst (priceItem store1 0 (- 1)))"
  by (simp add: store_inv_def store1_def addItem_def priceItem_def INVENTORY_SIZE_def
      slot_def put_slot_def)

section \<open>buyItem in coarse mode\<close>

lemma buyItem_loop_waits:
  assumes "list_all (\<lambda>e. valid (slot e i)
              \<and> \<not> (0 < quantity (slot e i) \<and> totalCost_nolock e (slot e i) \<le> budget))
            (s # pre)"
  shows "buyItem_loop s i budget (pre @ s' # rest) =
           emit (replicate (Suc (length pre)) (scond_wait (item_cv i) mtx))
             (buyItem_loop s' i budget rest)"
  using assms
proof (induction pre arbitrary: s)
  case Nil
  then show ?case by (subst buyItem_loop_cases) auto
next
  case (Cons e pre)
  have "buyItem_loop s i budget ((e # pre) @ s' # rest) =
          emit [scond_wait (item_cv i) mtx] (buyItem_loop e i budget (pre @ s' # rest))"
    using Cons.prems by (subst buyItem_loop_cases) auto
  moreover have "buyItem_loop e i budget (pre @ s' # rest) =
          emit (replicate (Suc (length pre)) (scond_wait (item_cv i) mtx))
             (buyItem_loop s' i budget rest)"
    using Cons.prems by (intro Cons.IH) simp
  ultimately show ?case by (simp add: emit_def split: sum.splits)
qed

lemma buyItem_coarse_put_slot:
  assumes "\<not> fineMode s"
  shows "(item_id < 0 \<or> INVENTORY_SIZE s \<le> item_id
            \<longrightarrow> buyItem s item_id budget env = Inr (s, []))
    \<and> (0 \<le> item_id \<and> item_id < INVENTORY_SIZE s \<and> \<not> valid (slot s item_id)
            \<longrightarrow> buyItem s item_id budget env = Inr (s, [smutex_lock mtx, smutex_unlock mtx]))
    \<and> (0 \<le> item_id \<and> item_id < INVENTORY_SIZE s \<and> valid (slot s item_id)
         \<and> 0 < quantity (slot s item_id) \<and> totalCost_nolock s (slot s item_id) \<le> budget
            \<longrightarrow> buyItem s item_id budget env =
                  Inr (put_slot s item_id
                         ((slot s item_id)\<lparr>quantity := quantity (slot s item_id) - 1\<rparr>),
                       [smutex_lock mtx, smutex_unlock mtx]))
    \<and> (0 \<le> item_id \<and> item_id < INVENTORY_SIZE s
         \<and> list_all (\<lambda>e. valid (slot e item_id)
                \<and> \<not> (0 < quantity (slot e item_id)
                      \<and> totalCost_nolock e (slot e item_id) \<le> budget)) (s # pre)
         \<and> valid (slot s' item_id) \<and> 0 < quantity (slot s' item_id)
         \<and> totalCost_nolock s' (slot s' item_id) \<le> budget
            \<longrightarrow> buyItem s item_id budget (pre @ s' # rest) =
                  Inr (put_slot s' item_id
                         ((slot s' item_id)\<lparr>quantity := quantity (slot s' item_id) - 1\<rparr>),
                       [smutex_lock mtx]
                       @ replicate (Suc (length pre)) (scond_wait (item_cv item_id) mtx)
                       @ [smutex_unlock mtx]))"
proof (intro conjI impI)
  assume "item_id < 0 \<or> INVENTORY_SIZE s \<le> item_id"
  then show "buyItem s item_id budget env = Inr (s, [])"
    using assms by (auto simp: buyItem_def)
next
  assume "0 \<le> item_id \<and> item_id < INVENTORY_SIZE s \<and> \<not> valid (slot s item_id)"
  then show "buyItem s item_id budget env = Inr (s, [smutex_lock mtx, smutex_unlock mtx])"
    using assms by (auto simp: buyItem_def)
next
  assume "0 \<le> item_id \<and> item_id < INVENTORY_SIZE s \<and> valid (slot s item_id)
         \<and> 0 < quantity (slot s item_id) \<and> totalCost_nolock s (slot s item_id) \<le> budget"
  then show "buyItem s item_id budget env =
                  Inr (put_slot s item_id
                         ((slot s item_id)\<lparr>quantity := quantity (slot s item_id) - 1\<rparr>),
                       [smutex_lock mtx, smutex_unlock mtx])"
    using assms by (auto simp: buyItem_def buyItem_loop_cases emit_def)
next
  assume a: "0 \<le> item_id \<and> item_id < INVENTORY_SIZE s
         \<and> list_all (\<lambda>e. valid (slot e item_id)
                \<and> \<not> (0 < quantity (slot e item_id)
                      \<and> totalCost_nolock e (slot e item_id) \<le> budget)) (s # pre)
         \<and> valid (slot s' item_id) \<and> 0 < quantity (slot s' item_id)
         \<and> totalCost_nolock s' (slot s' item_id) \<le> budget"
  then have w: "buyItem_loop s item_id budget (pre @ s' # rest) =
           emit (replicate (Suc (length pre)) (scond_wait (item_cv item_id) mtx))
             (buyItem_loop s' item_id budget rest)"
    by (intro buyItem_loop_waits) simp
  have "buyItem_loop s' item_id budget rest =
          Inr (put_slot s' item_id
                 ((slot s' item_id)\<lparr>quantity := quantity (slot s' item_id) - 1\<rparr>),
               [smutex_unlock mtx])"
    using a by (subst buyItem_loop_cases) simp
  with w have "buyItem_loop s item_id budget (pre @ s' # rest) =
          Inr (put_slot s' item_id
                 ((slot s' item_id)\<lparr>quantity := quantity (slot s' item_id) - 1\<rparr>),
               replicate (Suc (length pre)) (scond_wait (item_cv item_id) mtx)
               @ [smutex_unlock mtx])"
    by (simp add: emit_def)
  moreover have "buyItem s item_id budget (pre @ s' # rest) =
      emit [smutex_lock mtx] (buyItem_loop s item_id budget (pre @ s' # rest))"
    using a assms by (simp add: buyItem_def)
  ultimately show "buyItem s item_id budget (pre @ s' # rest) =
                  Inr (put_slot s' item_id
                         ((slot s' item_id)\<lparr>quantity := quantity (slot s' item_id) - 1\<rparr>),
                       [smutex_lock mtx]
                       @ replicate (Suc (length pre)) (scond_wait (item_cv item_id) mtx)
                       @ [smutex_unlock mtx])"
    by (simp add: emit_def)
qed

lemma put_slot_decremented:
  assumes "0 \<le> i"
  shows "put_slot s i ((slot s i)\<lparr>quantity := quantity (slot s i) - 1\<rparr>) = decremented s [i]"
proof -
  have "(inventory s)[nat i := (slot s i)\<lparr>quantity := quantity (slot s i) - 1\<rparr>] =
        map (\<lambda>k. if int k \<in> set [i]
                    then (inventory s ! k)\<lparr>quantity := quantity (inventory s ! k) - 1\<rparr>
                    else inventory s ! k)
              [0 ..< length (inventory s)]"
  proof (rule nth_equalityI)
    show "length ((inventory s)[nat i := (slot s i)\<lparr>quantity := quantity (slot s i) - 1\<rparr>]) =
        length (map (\<lambda>k. if int k \<in> set [i]
                    then (inventory s ! k)\<lparr>quantity := quantity (inventory s ! k) - 1\<rparr>
                    else inventory s ! k)
              [0 ..< length (inventory s)])"
      by simp
  next
    fix k
    assume "k < length ((inventory s)[nat i := (slot s i)\<lparr>quantity := quantity (slot s i) - 1\<rparr>])"
    then have k: "k < length (inventory s)" by simp
    have "(int k = i) = (k = nat i)" using assms by auto
    then show "(inventory s)[nat i := (slot s i)\<lparr>quantity := quantity (slot s i) - 1\<rparr>] ! k =
        map (\<lambda>k. if int k \<in> set [i]
                    then (inventory s ! k)\<lparr>quantity := quantity (inventory s ! k) - 1\<rparr>
                    else inventory s ! k)
              [0 ..< length (inventory s)] ! k"
      using k by (auto simp: slot_def)
  qed
  then show ?thesis by (simp add: put_slot_def decremented_def)
qed

text \<open>
  Claim C4. In coarse mode, \<open>buyItem\<close> returns at once with the store unchanged when the id
  is out of range (taking no lock) or the slot is not valid; when the slot is valid, in stock
  and its effective cost within the budget, it returns the store with that slot's quantity
  one less and nothing else changed (the store \<open>decremented s [item_id]\<close>). The same holds at a later decision point: after waiting
  as long as the slot stays valid but cannot be bought, the first store found in which it can
  be bought is returned with that slot's quantity one less.
\<close>

theorem buyItem_coarse:
  assumes "\<not> fineMode s"
  shows "(item_id < 0 \<or> INVENTORY_SIZE s \<le> item_id
            \<longrightarrow> buyItem s item_id budget env = Inr (s, []))
    \<and> (0 \<le> item_id \<and> item_id < INVENTORY_SIZE s \<and> \<not> valid (slot s item_id)
            \<longrightarrow> buyItem s item_id budget env = Inr (s, [smutex_lock mtx, smutex_unlock mtx]))
    \<and> (0 \<le> item_id \<and> item_id < INVENTORY_SIZE s \<and> valid (slot s item_id)
         \<and> 0 < quantity (slot s item_id) \<and> totalCost_nolock s (slot s item_id) \<le> budget
            \<longrightarrow> buyItem s item_id budget env =
                  Inr (decremented s [item_id], [smutex_lock mtx, smutex_unlock mtx]))
    \<and> (0 \<le> item_id \<and> item_id < INVENTORY_SIZE s
         \<and> list_all (\<lambda>e. valid (slot e item_id)
                \<and> \<not> (0 < quantity (slot e item_id)
                      \<and> totalCost_nolock e (slot e item_id) \<le> budget)) (s # pre)
         \<and> valid (slot s' item_id) \<and> 0 < quantity (slot s' item_id)
         \<and> totalCost_nolock s' (slot s' item_id) \<le> budget
            \<longrightarrow> buyItem s item_id budget (pre @ s' # rest) =
                  Inr (decremented s' [item_id],
                       [smutex_lock mtx]
                       @ replicate (Suc (length pre)) (scond_wait (item_cv item_id) mtx)
                       @ [smutex_unlock mtx]))"
proof -
  note ps = buyItem_coarse_put_slot [OF assms, of item_id budget env pre s' rest]
  have d: "0 \<le> item_id \<Longrightarrow>
      put_slot s item_id ((slot s item_id)\<lparr>quantity := quantity (slot s item_id) - 1\<rparr>)
        = decremented s [item_id]"
    and d': "0 \<le> item_id \<Longrightarrow>
      put_slot s' item_id ((slot s' item_id)\<lparr>quantity := quantity (slot s' item_id) - 1\<rparr>)
        = decremented s' [item_id]"
    by (rule put_slot_decremented, assumption)+
  have c1: "item_id < 0 \<or> INVENTORY_SIZE s \<le> item_id
            \<longrightarrow> buyItem s item_id budget env = Inr (s, [])"
    using ps by blast
  have c2: "0 \<le> item_id \<and> item_id < INVENTORY_SIZE s \<and> \<not> valid (slot s item_id)
            \<longrightarrow> buyItem s item_id budget env = Inr (s, [smutex_lock mtx, smutex_unlock mtx])"
    using ps by blast
  have c3: "0 \<le> item_id \<and> item_id < INVENTORY_SIZE s \<and> valid (slot s item_id)
         \<and> 0 < quantity (slot s item_id) \<and> totalCost_nolock s (slot s item_id) \<le> budget
            \<longrightarrow> buyItem s item_id budget env =
                  Inr (decremented s [item_id], [smutex_lock mtx, smutex_unlock mtx])"
  proof
    assume a: "0 \<le> item_id \<and> item_id < INVENTORY_SIZE s \<and> valid (slot s item_id)
         \<and> 0 < quantity (slot s item_id) \<and> totalCost_nolock s (slot s item_id) \<le> budget"
    then have "buyItem s item_id budget env =
                  Inr (put_slot s item_id
                         ((slot s item_id)\<lparr>quantity := quantity (slot s item_id) - 1\<rparr>),
                       [smutex_lock mtx, smutex_unlock mtx])"
      using ps by blast
    then show "buyItem s item_id budget env =
                  Inr (decremented s [item_id], [smutex_lock mtx, smutex_unlock mtx])"
      using d a by simp
  qed
  have c4: "0 \<le> item_id \<and> item_id < INVENTORY_SIZE s
         \<and> list_all (\<lambda>e. valid (slot e item_id)
                \<and> \<not> (0 < quantity (slot e item_id)
                      \<and> totalCost_nolock e (slot e item_id) \<le> budget)) (s # pre)
         \<and> valid (slot s' item_id) \<and> 0 < quantity (slot s' item_id)
         \<and> totalCost_nolock s' (slot s' item_id) \<le> budget
            \<longrightarrow> buyItem s item_id budget (pre @ s' # rest) =
                  Inr (decremented s' [item_id],
                       [smutex_lock mtx]
                       @ replicate (Suc (length pre)) (scond_wait (item_cv item_id) mtx)
                       @ [smutex_unlock mtx])"
  proof
    assume a: "0 \<le> item_id \<and> item_id < INVENTORY_SIZE s
         \<and> list_all (\<lambda>e. valid (slot e item_id)
                \<and> \<not> (0 < quantity (slot e item_id)
                      \<and> totalCost_nolock e (slot e item_id) \<le> budget)) (s # pre)
         \<and> valid (slot s' item_id) \<and> 0 < quantity (slot s' item_id)
         \<and> totalCost_nolock s' (slot s' item_id) \<le> budget"
    then have "buyItem s item_id budget (pre @ s' # rest) =
                  Inr (put_slot s' item_id
                         ((slot s' item_id)\<lparr>quantity := quantity (slot s' item_id) - 1\<rparr>),
                       [smutex_lock mtx]
                       @ replicate (Suc (length pre)) (scond_wait (item_cv item_id) mtx)
                       @ [smutex_unlock mtx])"
      using ps by blast
    then show "buyItem s item_id budget (pre @ s' # rest) =
                  Inr (decremented s' [item_id],
                       [smutex_lock mtx]
                       @ replicate (Suc (length pre)) (scond_wait (item_cv item_id) mtx)
                       @ [smutex_unlock mtx])"
      using d' a by simp
  qed
  show ?thesis using c1 c2 c3 c4 by (intro conjI)
qed

theorem buyItem_coarse_witness:
  "\<not> fineMode store_coarse
   \<and> buyItem store_coarse 3 100 [] = Inr (store_coarse, [])
   \<and> buyItem store_coarse (- 1) 100 [] = Inr (store_coarse, [])
   \<and> buyItem store_coarse 2 100 [] = Inr (store_coarse, [smutex_lock mtx, smutex_unlock mtx])
   \<and> buyItem store_coarse 0 13 [] =
       Inr (store_coarse\<lparr>inventory :=
                      [\<lparr>valid = True, quantity = 0, price = 10, discount = 0\<rparr>,
                       \<lparr>valid = True, quantity = 0, price = 2, discount = 0\<rparr>,
                       \<lparr>valid = False, quantity = 0, price = 0, discount = 0\<rparr>]\<rparr>,
            [smutex_lock mtx, smutex_unlock mtx])
   \<and> buyItem store_coarse 0 12 [store_coarse\<lparr>shippingCost := 1\<rparr>] =
       Inr (store_coarse\<lparr>shippingCost := 1, inventory :=
                      [\<lparr>valid = True, quantity = 0, price = 10, discount = 0\<rparr>,
                       \<lparr>valid = True, quantity = 0, price = 2, discount = 0\<rparr>,
                       \<lparr>valid = False, quantity = 0, price = 0, discount = 0\<rparr>]\<rparr>,
            [smutex_lock mtx, scond_wait (item_cv 0) mtx, smutex_unlock mtx])"
proof -
  let ?s' = "store_coarse\<lparr>shippingCost := 1\<rparr>"
  have f: "\<not> fineMode store_coarse" by (simp add: store_coarse_def)
  have n: "INVENTORY_SIZE store_coarse = 3" by (simp add: store_coarse_def INVENTORY_SIZE_def)
  have v: "\<not> valid (slot store_coarse 2)" by (simp add: store_coarse_def slot_def)
  have b: "valid (slot store_coarse 0) \<and> 0 < quantity (slot store_coarse 0)
         \<and> totalCost_nolock store_coarse (slot store_coarse 0) \<le> 13"
    by (simp add: store_coarse_def slot_def totalCost_nolock_def)
  have p: "decremented store_coarse [0] =
       store_coarse\<lparr>inventory :=
                      [\<lparr>valid = True, quantity = 0, price = 10, discount = 0\<rparr>,
                       \<lparr>valid = True, quantity = 0, price = 2, discount = 0\<rparr>,
                       \<lparr>valid = False, quantity = 0, price = 0, discount = 0\<rparr>]\<rparr>"
    by (simp add: store_coarse_def decremented_def upt_rec)
  have w: "list_all (\<lambda>e. valid (slot e 0)
                \<and> \<not> (0 < quantity (slot e 0) \<and> totalCost_nolock e (slot e 0) \<le> 12))
             (store_coarse # [])"
    by (simp add: store_coarse_def slot_def totalCost_nolock_def)
  have b': "valid (slot ?s' 0) \<and> 0 < quantity (slot ?s' 0)
         \<and> totalCost_nolock ?s' (slot ?s' 0) \<le> 12"
    by (simp add: store_coarse_def slot_def totalCost_nolock_def)
  have p': "decremented ?s' [0] =
       store_coarse\<lparr>shippingCost := 1, inventory :=
                      [\<lparr>valid = True, quantity = 0, price = 10, discount = 0\<rparr>,
                       \<lparr>valid = True, quantity = 0, price = 2, discount = 0\<rparr>,
                       \<lparr>valid = False, quantity = 0, price = 0, discount = 0\<rparr>]\<rparr>"
    by (simp add: store_coarse_def decremented_def upt_rec)
  have r1: "buyItem store_coarse 3 100 [] = Inr (store_coarse, [])"
    using buyItem_coarse [OF f, where item_id = 3 and budget = 100 and env = "[]"] n by simp
  have r2: "buyItem store_coarse (- 1) 100 [] = Inr (store_coarse, [])"
    using buyItem_coarse [OF f, where item_id = "- 1" and budget = 100 and env = "[]"] by simp
  have r3: "buyItem store_coarse 2 100 [] =
              Inr (store_coarse, [smutex_lock mtx, smutex_unlock mtx])"
    using buyItem_coarse [OF f, where item_id = 2 and budget = 100 and env = "[]"] n v
    by simp
  have r4: "buyItem store_coarse 0 13 [] =
       Inr (store_coarse\<lparr>inventory :=
                      [\<lparr>valid = True, quantity = 0, price = 10, discount = 0\<rparr>,
                       \<lparr>valid = True, quantity = 0, price = 2, discount = 0\<rparr>,
                       \<lparr>valid = False, quantity = 0, price = 0, discount = 0\<rparr>]\<rparr>,
            [smutex_lock mtx, smutex_unlock mtx])"
    using buyItem_coarse [OF f, where item_id = 0 and budget = 13 and env = "[]"] n b p
    by simp
  have r5: "buyItem store_coarse 0 12 [?s'] =
       Inr (store_coarse\<lparr>shippingCost := 1, inventory :=
                      [\<lparr>valid = True, quantity = 0, price = 10, discount = 0\<rparr>,
                       \<lparr>valid = True, quantity = 0, price = 2, discount = 0\<rparr>,
                       \<lparr>valid = False, quantity = 0, price = 0, discount = 0\<rparr>]\<rparr>,
            [smutex_lock mtx, scond_wait (item_cv 0) mtx, smutex_unlock mtx])"
    using buyItem_coarse [OF f, where item_id = 0 and budget = 12 and pre = "[]"
        and s' = ?s' and rest = "[]"] n w b' p'
    by simp
  show ?thesis using f r1 r2 r3 r4 r5 by (intro conjI)
qed

section \<open>The task queue is first-in first-out\<close>

lemma dequeue_nonempty:
  "dequeue (t # q) env = Inr ((t, q), [smutex_lock queue_mtx, smutex_unlock queue_mtx])"
  by (simp add: dequeue_def dequeue_loop.simps [of "t # q"] emit_def)

lemma dequeue_empty:
  "dequeue [] [] = Inl BlockedForever"
  "dequeue [] (q' # env) =
     emit [smutex_lock queue_mtx, scond_wait not_empty queue_mtx] (dequeue_loop q' env)"
  by (simp_all add: dequeue_def dequeue_loop.simps [of "[]"] emit_def split: sum.splits)

lemma dequeue_after_waits:
  "list_all (\<lambda>e. e = []) pre \<Longrightarrow>
   dequeue_loop [] (pre @ (t # q) # rest) =
     Inr ((t, q), replicate (Suc (length pre)) (scond_wait not_empty queue_mtx)
                  @ [smutex_unlock queue_mtx])"
proof (induction pre)
  case Nil
  then show ?case
    by (simp add: dequeue_loop.simps [of "[]"] dequeue_loop.simps [of "t # q"] emit_def)
next
  case (Cons e pre)
  then have "e = []" by simp
  then show ?case using Cons
    by (simp add: dequeue_loop.simps [of "[]" "[] # pre @ (t # q) # rest"] emit_def)
qed

lemma run_queue_fifo:
  "run_queue ops q = Some (delivered, q') \<Longrightarrow> delivered @ q' = q @ enqueued ops"
proof (induction ops q arbitrary: delivered q' rule: run_queue.induct)
  case (1 q)
  then show ?case by simp
next
  case (2 t ops q)
  then show ?case by (simp add: enqueue_def)
next
  case (3 ops q)
  show ?case
  proof (cases q)
    case Nil
    then show ?thesis using "3.prems" by (simp add: dequeue_empty result_of_simps)
  next
    case (Cons t q1)
    then have r: "result_of (dequeue q []) = Some (t, q1)"
      by (simp add: dequeue_nonempty result_of_simps)
    then obtain ts where ts: "run_queue ops q1 = Some (ts, q')" "delivered = t # ts"
      using "3.prems" by (auto split: option.splits)
    have "ts @ q' = q1 @ enqueued ops"
      using "3.IH" [OF r refl ts(1)] by simp
    then show ?thesis using ts Cons by simp
  qed
qed

lemma run_queue_enqueues: "run_queue (map Enqueue ts @ ops) q = run_queue ops (q @ ts)"
  by (induction ts arbitrary: q) (simp_all add: enqueue_def)

lemma run_queue_dequeues:
  "run_queue (replicate (length q) Dequeue) q = Some (q, [])"
  by (induction q) (simp_all add: dequeue_nonempty result_of_simps)

text \<open>
  Claim C8. \<open>enqueue\<close> appends the task at the tail, always returns without waiting, and
  wakes at most one consumer: its only call on the condition variable is one
  \<open>scond_signal\<close>. \<open>dequeue\<close> on a queue that is not empty removes and returns the head
  without waiting; it waits, and blocks for good when never woken, only on an empty queue,
  and once woken to a queue that is not empty it returns the head of that queue.
  In every schedule of calls the tasks delivered followed by the tasks still queued are the
  tasks enqueued, in the order of their enqueuing, so each task is delivered at most once and
  in order; and after as many dequeues as there were enqueues all of them have been
  delivered.
\<close>

theorem TaskQueue_fifo:
  "enqueue q task =
     (q @ [task],
      [smutex_lock queue_mtx, scond_signal not_empty queue_mtx, smutex_unlock queue_mtx])
   \<and> dequeue (t # q) env = Inr ((t, q), [smutex_lock queue_mtx, smutex_unlock queue_mtx])
   \<and> dequeue [] [] = Inl BlockedForever
   \<and> (scond_wait not_empty queue_mtx \<in> set (trace_of (dequeue q env))
        \<or> dequeue q env = Inl BlockedForever \<longrightarrow> q = [])
   \<and> (list_all (\<lambda>e. e = []) pre \<longrightarrow>
        dequeue [] (pre @ (t # q) # rest) =
          Inr ((t, q), [smutex_lock queue_mtx]
                       @ replicate (Suc (length pre)) (scond_wait not_empty queue_mtx)
                       @ [smutex_unlock queue_mtx]))
   \<and> (run_queue ops [] = Some (delivered, q') \<longrightarrow> delivered @ q' = enqueued ops)
   \<and> run_queue (map Enqueue ts @ replicate (length ts) Dequeue) [] = Some (ts, [])"
proof -
  have w: "scond_wait not_empty queue_mtx \<in> set (trace_of (dequeue q env))
        \<or> dequeue q env = Inl BlockedForever \<longrightarrow> q = []"
    by (cases q) (auto simp: dequeue_nonempty trace_of_def)
  have f: "run_queue ops [] = Some (delivered, q') \<longrightarrow> delivered @ q' = enqueued ops"
    using run_queue_fifo [of ops "[]" delivered q'] by simp
  have a: "run_queue (map Enqueue ts @ replicate (length ts) Dequeue) [] = Some (ts, [])"
    using run_queue_enqueues [of ts "replicate (length ts) Dequeue" "[]"]
      run_queue_dequeues [of ts] by simp
  have l: "list_all (\<lambda>e. e = []) pre \<longrightarrow>
        dequeue [] (pre @ (t # q) # rest) =
          Inr ((t, q), [smutex_lock queue_mtx]
                       @ replicate (Suc (length pre)) (scond_wait not_empty queue_mtx)
                       @ [smutex_unlock queue_mtx])"
    by (simp add: dequeue_def dequeue_after_waits emit_def)
  have e: "enqueue q task =
     (q @ [task],
      [smutex_lock queue_mtx, scond_signal not_empty queue_mtx, smutex_unlock queue_mtx])"
    by (simp add: enqueue_def)
  have d: "dequeue (t # q) env =
             Inr ((t, q), [smutex_lock queue_mtx, smutex_unlock queue_mtx])"
    by (rule dequeue_nonempty)
  have b: "dequeue [] [] = Inl BlockedForever" by (rule dequeue_empty)
  show ?thesis using e d b w l f a by (intro conjI)
qed

theorem TaskQueue_fifo_witness:
  "run_queue [Enqueue task1, Enqueue task2, Dequeue, Enqueue task1, Dequeue] []
     = Some ([task1, task2], [task1])
   \<and> [task1, task2] @ [task1]
       = enqueued [Enqueue task1, Enqueue task2, Dequeue, Enqueue task1, Dequeue]
   \<and> dequeue [] [] = Inl BlockedForever
   \<and> list_all (\<lambda>e. e = []) [[] :: Task list]
   \<and> dequeue [] [[], [task1, task2]] =
       Inr ((task1, [task2]),
            [smutex_lock queue_mtx, scond_wait not_empty queue_mtx,
             scond_wait not_empty queue_mtx, smutex_unlock queue_mtx])"
proof -
  have r: "run_queue [Enqueue task1, Enqueue task2, Dequeue, Enqueue task1, Dequeue] []
     = Some ([task1, task2], [task1])"
    by (simp add: enqueue_def dequeue_nonempty result_of_simps)
  have em: "list_all (\<lambda>e. e = []) [[] :: Task list]" by simp
  note th = TaskQueue_fifo [where ops = "[Enqueue task1, Enqueue task2, Dequeue, Enqueue task1, Dequeue]"
      and delivered = "[task1, task2]" and q' = "[task1]" and q = "[task2]" and env = "[]"
      and pre = "[[]]" and t = task1 and rest = "[]"]
  have d: "dequeue [] [[], [task1, task2]] =
       Inr ((task1, [task2]),
            [smutex_lock queue_mtx, scond_wait not_empty queue_mtx,
             scond_wait not_empty queue_mtx, smutex_unlock queue_mtx])"
    using th em by simp
  have e: "[task1, task2] @ [task1]
       = enqueued [Enqueue task1, Enqueue task2, Dequeue, Enqueue task1, Dequeue]"
    using th r by blast
  have b: "dequeue [] [] = Inl BlockedForever" using th by blast
  show ?thesis using r e b em d by (intro conjI)
qed

section \<open>The worker loop\<close>

lemma supplier_until_stop:
  "\<forall>t\<in>set pre. handler t \<noteq> stop_handler \<and> handler t \<noteq> nullptr \<Longrightarrow>
   handler st = stop_handler \<Longrightarrow> supplier (pre @ st # rest) = (pre, sthread_exit)"
  by (induction pre) simp_all

lemma customer_until_stop:
  "\<forall>t\<in>set pre. handler t \<noteq> stop_handler \<and> handler t \<noteq> nullptr \<Longrightarrow>
   handler st = stop_handler \<Longrightarrow> customer (pre @ st # rest) = (pre, sthread_exit)"
  by (induction pre) simp_all

lemma supplier_no_stop:
  "\<forall>t\<in>set pre. handler t \<noteq> stop_handler \<and> handler t \<noteq> nullptr \<Longrightarrow>
   supplier pre = (pre, Halt BlockedForever)"
  by (induction pre) simp_all

lemma customer_no_stop:
  "\<forall>t\<in>set pre. handler t \<noteq> stop_handler \<and> handler t \<noteq> nullptr \<Longrightarrow>
   customer pre = (pre, Halt BlockedForever)"
  by (induction pre) simp_all

text \<open>
  Claim C9, as amended. For every sequence of tasks a worker dequeues, the worker calls the
  handler of each task that precedes the first task whose \<open>handler\<close> field equals
  \<open>stop_handler\<close>, once each and in dequeue order (the handlers being non-null), and on
  dequeuing that task it exits without calling its handler and without dequeuing anything
  after it. The stop task is recognised by comparing its \<open>handler\<close> field with the function
  pointer \<open>stop_handler\<close>. With no such task in the sequence the worker runs every handler
  and then stays blocked in \<open>dequeue\<close>.
\<close>

theorem worker_stops_on_stop_handler:
  assumes "\<forall>t\<in>set pre. handler t \<noteq> stop_handler \<and> handler t \<noteq> nullptr"
    and "handler st = stop_handler"
  shows "supplier (pre @ st # rest) = (pre, sthread_exit)
    \<and> customer (pre @ st # rest) = (pre, sthread_exit)
    \<and> supplier pre = (pre, Halt BlockedForever)
    \<and> customer pre = (pre, Halt BlockedForever)"
  using assms supplier_until_stop customer_until_stop supplier_no_stop customer_no_stop
  by blast

theorem worker_stops_on_stop_handler_witness:
  "list_all (\<lambda>t. handler t \<noteq> stop_handler \<and> handler t \<noteq> nullptr) [task1, task2]
   \<and> handler stop_task = stop_handler
   \<and> supplier ([task1, task2] @ stop_task # [task1]) = ([task1, task2], sthread_exit)
   \<and> customer ([task1, task2] @ stop_task # [task1]) = ([task1, task2], sthread_exit)"
proof -
  have a: "\<forall>t\<in>set [task1, task2]. handler t \<noteq> stop_handler \<and> handler t \<noteq> nullptr"
    by (simp add: task1_def task2_def)
  have b: "handler stop_task = stop_handler" by (simp add: stop_task_def)
  have a': "list_all (\<lambda>t. handler t \<noteq> stop_handler \<and> handler t \<noteq> nullptr) [task1, task2]"
    using a by simp
  have s: "supplier ([task1, task2] @ stop_task # [task1]) = ([task1, task2], sthread_exit)"
    and c: "customer ([task1, task2] @ stop_task # [task1]) = ([task1, task2], sthread_exit)"
    using worker_stops_on_stop_handler [OF a b, of "[task1]"] by blast+
  show ?thesis using a' b s c by (intro conjI)
qed

text \<open>
  The recognition is not by a variant of the task type: the task built by \<open>make_stop\<close>, whose
  handler is the null pointer, is not taken for a stop and the worker goes on to call that
  null handler, while any task whose handler field is set to \<open>stop_handler\<close> makes the
  worker exit.
\<close>

theorem worker_stop_recognition_counterexample:
  "supplier [make_stop] = ([], Halt NullCall)
   \<and> customer [make_stop] = ([], Halt NullCall)
   \<and> snd (supplier [make_stop]) \<noteq> sthread_exit
   \<and> snd (supplier [make_stop\<lparr>handler := stop_handler\<rparr>]) = sthread_exit
   \<and> snd (supplier [task1\<lparr>handler := stop_handler\<rparr>]) = sthread_exit"
  by (simp add: make_stop_def task1_def)

end
